theory Spec2Isabelle
  imports Complex_Main "HOL-Library.Word" "HOL-Library.Multiset"
begin

unbundle bit_operations_syntax

section \<open>Data model\<close>

text \<open>
  The pixel buffer is \<open>imageData.data\<close>, a \<open>Uint8ClampedArray\<close>: a flat array of bytes,
  four per pixel (r, g, b, a).  A canvas always hands over \<open>4 * width * height\<close> entries;
  the lemmas below assume \<open>length data mod 4 = 0\<close> wherever the buffer is read, and
  \<open>visited_in_range\<close> shows that every read of the loop then stays inside the buffer.
  JavaScript numbers are modelled exactly: integers as \<open>int\<close>, the rest as \<open>real\<close>.
\<close>

type_synonym byte = "8 word"

record Entry =
  count :: int
  rSum :: int
  gSum :: int
  bSum :: int

record PaletteColor =
  paletteColor :: string
  textColor :: string
  population :: int
  percentage :: real

text \<open>\<open>RawColor\<close> has an optional \<open>percentage\<close>; \<open>None\<close> is the absent field.\<close>

record RawColor =
  r :: int
  g :: int
  b :: int
  population :: int
  percentage :: "real option"

text \<open>A JavaScript \<open>Map\<close> keeps its keys in insertion order; \<open>set\<close> on a key that is
  present replaces the value where it stands.\<close>

type_synonym ColorMap = "(int \<times> Entry) list"

fun mapGet :: "ColorMap \<Rightarrow> int \<Rightarrow> Entry option" where
  "mapGet [] k = None"
| "mapGet ((k', v) # m) k = (if k' = k then Some v else mapGet m k)"

fun mapSet :: "ColorMap \<Rightarrow> int \<Rightarrow> Entry \<Rightarrow> ColorMap" where
  "mapSet [] k v = [(k, v)]"
| "mapSet ((k', v') # m) k v = (if k' = k then (k, v) # m else (k', v') # mapSet m k v)"

definition mapValues :: "ColorMap \<Rightarrow> Entry list" where
  "mapValues m = map snd m"

record Sampler =
  colorMap :: ColorMap
  totalSamples :: int

section \<open>Pixel sampling and bucketing\<close>

text \<open>\<open>Math.round\<close> rounds to the nearest integer, halves upwards.\<close>

definition Math_round :: "real \<Rightarrow> int" where
  "Math_round x = \<lfloor>x + 1 / 2\<rfloor>"

text \<open>The increment of the sampling loop: \<open>4 * Math.max(1, Math.floor(sampleStep))\<close>.\<close>

definition stride :: "real \<Rightarrow> nat" where
  "stride sampleStep = nat (4 * max 1 \<lfloor>sampleStep\<rfloor>)"

text \<open>One pass through the body of the sampling loop at buffer index \<open>i\<close>.\<close>

definition sampleBody :: "byte list \<Rightarrow> nat \<Rightarrow> Sampler \<Rightarrow> Sampler" where
  "sampleBody data i st =
     (let r = uint (data ! i);
          g = uint (data ! (i + 1));
          b = uint (data ! (i + 2));
          a = uint (data ! (i + 3))
      in if a < 128 then st
         else
           let qr = drop_bit 4 r;
               qg = drop_bit 4 g;
               qb = drop_bit 4 b;
               key = (push_bit 8 qr) OR (push_bit 4 qg) OR qb;
               entry = (case mapGet (colorMap st) key of
                          Some e \<Rightarrow> e
                        | None \<Rightarrow> \<lparr>count = 0, rSum = 0, gSum = 0, bSum = 0\<rparr>);
               entry' = \<lparr>count = count entry + 1, rSum = rSum entry + r,
                         gSum = gSum entry + g, bSum = bSum entry + b\<rparr>
           in \<lparr>colorMap = mapSet (colorMap st) key entry',
               totalSamples = totalSamples st + 1\<rparr>)"

function sampleLoop :: "byte list \<Rightarrow> real \<Rightarrow> nat \<Rightarrow> Sampler \<Rightarrow> Sampler" where
  "sampleLoop data sampleStep i st =
     (if i < length data
      then sampleLoop data sampleStep (i + stride sampleStep) (sampleBody data i st)
      else st)"
  by pat_completeness auto
termination
  by (relation "measure (\<lambda>(data, sampleStep, i, st). length data - i)")
     (auto simp: stride_def)

declare sampleLoop.simps [simp del]


definition emptySampler :: Sampler where
  "emptySampler = \<lparr>colorMap = [], totalSamples = 0\<rparr>"

text \<open>A bucket of the colour map becomes an averaged colour with its population.\<close>

definition averaged :: "Entry \<Rightarrow> RawColor" where
  "averaged entry =
     (let r = Math_round (real_of_int (rSum entry) / real_of_int (count entry));
          g = Math_round (real_of_int (gSum entry) / real_of_int (count entry));
          b = Math_round (real_of_int (bSum entry) / real_of_int (count entry))
      in \<lparr>r = r, g = g, b = b, population = count entry, percentage = None\<rparr>)"

text \<open>\<open>colors.sort((a, b) => b.population - a.population)\<close>: a stable sort, largest
  population first.\<close>

definition sortByPopulation :: "RawColor list \<Rightarrow> RawColor list" where
  "sortByPopulation colors = sort_key (\<lambda>c. - population c) colors"

section \<open>Near-duplicate merging\<close>

definition colorDistance :: "RawColor \<Rightarrow> RawColor \<Rightarrow> real" where
  "colorDistance c1 c2 =
     (let dr = r c1 - r c2;
          dg = g c1 - g c2;
          db = b c1 - b c2
      in sqrt (real_of_int (dr * dr + dg * dg + db * db)))"

text \<open>The cluster that replaces \<open>merged[i]\<close> when it absorbs \<open>color\<close>.\<close>

definition absorb :: "RawColor \<Rightarrow> RawColor \<Rightarrow> RawColor" where
  "absorb cluster color =
     (let totalPop = population cluster + population color;
          newR = Math_round (real_of_int (r cluster * population cluster + r color * population color)
                   / real_of_int totalPop);
          newG = Math_round (real_of_int (g cluster * population cluster + g color * population color)
                   / real_of_int totalPop);
          newB = Math_round (real_of_int (b cluster * population cluster + b color * population color)
                   / real_of_int totalPop)
      in \<lparr>r = newR, g = newG, b = newB, population = totalPop, percentage = None\<rparr>)"

text \<open>The inner loop of \<open>mergeSimilarColors\<close> from index \<open>i\<close>: the list after the loop and
  the flag \<open>foundCluster\<close>.\<close>

function scanClusters :: "RawColor list \<Rightarrow> RawColor \<Rightarrow> real \<Rightarrow> nat \<Rightarrow> RawColor list \<times> bool" where
  "scanClusters merged color threshold i =
     (if i < length merged
      then (let cluster = merged ! i;
                dist = colorDistance color cluster
            in if dist \<le> threshold
               then (merged[i := absorb cluster color], True)
               else scanClusters merged color threshold (i + 1))
      else (merged, False))"
  by pat_completeness auto
termination
  by (relation "measure (\<lambda>(merged, color, threshold, i). length merged - i)") auto

declare scanClusters.simps [simp del]

text \<open>One pass through the body of the outer loop.\<close>

definition mergeStep :: "RawColor list \<Rightarrow> RawColor \<Rightarrow> real \<Rightarrow> RawColor list" where
  "mergeStep merged color threshold =
     (case scanClusters merged color threshold 0 of
        (merged', foundCluster) \<Rightarrow> if \<not> foundCluster then merged' @ [color] else merged')"

fun mergeLoop :: "RawColor list \<Rightarrow> real \<Rightarrow> RawColor list \<Rightarrow> RawColor list" where
  "mergeLoop [] threshold merged = merged"
| "mergeLoop (color # colors) threshold merged =
     mergeLoop colors threshold (mergeStep merged color threshold)"

definition mergeSimilarColors :: "RawColor list \<Rightarrow> real \<Rightarrow> RawColor list" where
  "mergeSimilarColors colors threshold = mergeLoop colors threshold []"

section \<open>Formatting\<close>

definition hexDigit :: "nat \<Rightarrow> char" where
  "hexDigit d = ''0123456789abcdef'' ! d"

text \<open>\<open>value.toString(16)\<close> of an integer: the digits without leading zeros, a minus
  sign in front of a negative value.\<close>

function hexDigits :: "nat \<Rightarrow> string" where
  "hexDigits n = (if n < 16 then [hexDigit n] else hexDigits (n div 16) @ [hexDigit (n mod 16)])"
  by pat_completeness auto
termination
  by (relation "measure id") auto

declare hexDigits.simps [simp del]

definition toString16 :: "int \<Rightarrow> string" where
  "toString16 v = (if v < 0 then CHR ''-'' # hexDigits (nat (- v)) else hexDigits (nat v))"

definition rgbToHex :: "int \<Rightarrow> int \<Rightarrow> int \<Rightarrow> string" where
  "rgbToHex = (\<lambda>r g b.
     ''#'' @ concat (map (\<lambda>v. let hex = toString16 v
                               in if length hex = 1 then ''0'' @ hex else hex) [r, g, b]))"

definition channelToLinear :: "real \<Rightarrow> real" where
  "channelToLinear c =
     (let cs = c / 255
      in if cs \<le> 3928 / 100000 then cs / (1292 / 100) else ((cs + 55 / 1000) / (1055 / 1000)) powr (24 / 10))"

definition srgbToLuminance :: "real \<Rightarrow> real \<Rightarrow> real \<Rightarrow> real" where
  "srgbToLuminance = (\<lambda>r g b.
      let R = channelToLinear r;
          G = channelToLinear g;
          B = channelToLinear b
      in 2126 / 10000 * R + 7152 / 10000 * G + 722 / 10000 * B)"

definition contrastRatio :: "real \<Rightarrow> real \<Rightarrow> real" where
  "contrastRatio L1 L2 =
     (let lighter = max L1 L2;
          darker = min L1 L2
      in (lighter + 5 / 100) / (darker + 5 / 100))"

definition bestTextColor :: "real \<Rightarrow> real \<Rightarrow> real \<Rightarrow> string" where
  "bestTextColor = (\<lambda>r g b.
      let bgL = srgbToLuminance r g b;
          whiteL = srgbToLuminance 255 255 255;
          blackL = srgbToLuminance 0 0 0;
          contrastWithWhite = contrastRatio bgL whiteL;
          contrastWithBlack = contrastRatio bgL blackL
      in if contrastWithWhite \<ge> contrastWithBlack then ''#FFFFFF'' else ''#000000'')"

section \<open>The extraction pipeline\<close>

definition toPaletteColor :: "RawColor \<Rightarrow> PaletteColor" where
  "toPaletteColor c =
     (let hex = rgbToHex (r c) (g c) (b c);
          textColor = bestTextColor (real_of_int (r c)) (real_of_int (g c)) (real_of_int (b c))
      in \<lparr>paletteColor = hex, textColor = textColor,
          PaletteColor.population = population c,
          PaletteColor.percentage = (case percentage c of Some p \<Rightarrow> p | None \<Rightarrow> 0)\<rparr>)"

text \<open>The averaged buckets, sorted, as the merge step receives them.\<close>

definition bucketsOf :: "Sampler \<Rightarrow> RawColor list" where
  "bucketsOf st = sortByPopulation (map averaged (mapValues (colorMap st)))"

definition buckets :: "byte list \<Rightarrow> real \<Rightarrow> RawColor list" where
  "buckets data sampleStep = bucketsOf (sampleLoop data sampleStep 0 emptySampler)"

text \<open>The clusters after the optional merge step.\<close>

definition clusters :: "RawColor list \<Rightarrow> real \<Rightarrow> RawColor list" where
  "clusters colors nearDuplicateThreshold =
     (if nearDuplicateThreshold > 0 then mergeSimilarColors colors nearDuplicateThreshold else colors)"

definition withPercentages :: "RawColor list \<Rightarrow> RawColor list" where
  "withPercentages colors =
     (let mergedTotalPopulation = foldl (\<lambda>sum c. sum + population c) 0 colors
      in map (\<lambda>c. c\<lparr>percentage :=
                      Some (if mergedTotalPopulation > 0
                            then real_of_int (population c) / real_of_int mergedTotalPopulation
                            else 0)\<rparr>) colors)"

text \<open>The clusters with their percentages, sorted again: the list that is cut to the
  palette size.\<close>

definition ranked :: "Sampler \<Rightarrow> real \<Rightarrow> RawColor list" where
  "ranked st nearDuplicateThreshold =
     sortByPopulation (withPercentages (clusters (bucketsOf st) nearDuplicateThreshold))"

text \<open>The cut to the palette size, for a \<open>paletteSize\<close> that is not \<open>NaN\<close>; \<open>limitedColorsN\<close>
  below admits \<open>NaN\<close>.\<close>

definition limitedColors :: "Sampler \<Rightarrow> real \<Rightarrow> real \<Rightarrow> RawColor list" where
  "limitedColors st paletteSize nearDuplicateThreshold =
     take (nat (max 1 \<lfloor>paletteSize\<rfloor>)) (ranked st nearDuplicateThreshold)"

text \<open>\<open>lib/getColorPalette.ts\<close>, \<open>getColorPaletteFromImageElement\<close> from the pixel
  buffer on: sampling, the early return, bucketing, merging, ranking, formatting.\<close>

definition paletteFromData :: "byte list \<Rightarrow> real \<Rightarrow> real \<Rightarrow> real \<Rightarrow> PaletteColor list" where
  "paletteFromData data paletteSize sampleStep nearDuplicateThreshold =
     (let st = sampleLoop data sampleStep 0 emptySampler
      in if totalSamples st = 0 then []
         else map toPaletteColor (limitedColors st paletteSize nearDuplicateThreshold))"

section \<open>The JavaScript original, \<open>js/getColorPalette.js\<close>\<close>

text \<open>
  The helpers \<open>rgbToHex\<close>, \<open>srgbToLuminance\<close>, \<open>contrastRatio\<close>, \<open>bestTextColor\<close>,
  \<open>colorDistance\<close> and \<open>mergeSimilarColors\<close> are the same text in both files and are
  shared here.  The main function differs in three places: the sampling loop steps by
  \<open>4 * sampleStep\<close>, the bucket is put into the map when it is created and then updated
  through the reference, and the palette is cut by \<open>colors.slice(0, paletteSize)\<close>.

  The loop may run forever, so it returns an option: \<open>None\<close> is a run that never leaves
  the loop.  The step is an integer here (a fractional step would index the array
  between its entries, which is left out).  The index can only fall below zero in a run
  that never ends, whose result is \<open>None\<close> whatever the body reads.
\<close>

definition sampleBodyJs :: "byte list \<Rightarrow> nat \<Rightarrow> Sampler \<Rightarrow> Sampler" where
  "sampleBodyJs data i st =
     (let r = uint (data ! i);
          g = uint (data ! (i + 1));
          b = uint (data ! (i + 2));
          a = uint (data ! (i + 3))
      in if a < 128 then st
         else
           let qr = drop_bit 4 r;
               qg = drop_bit 4 g;
               qb = drop_bit 4 b;
               key = (push_bit 8 qr) OR (push_bit 4 qg) OR qb;
               (entry, m) = (case mapGet (colorMap st) key of
                               Some e \<Rightarrow> (e, colorMap st)
                             | None \<Rightarrow>
                                 (let e = \<lparr>count = 0, rSum = 0, gSum = 0, bSum = 0\<rparr>
                                  in (e, mapSet (colorMap st) key e)));
               entry' = \<lparr>count = count entry + 1, rSum = rSum entry + r,
                         gSum = gSum entry + g, bSum = bSum entry + b\<rparr>
           in \<lparr>colorMap = mapSet m key entry',
               totalSamples = totalSamples st + 1\<rparr>)"

partial_function (option) sampleLoopJs ::
  "byte list \<Rightarrow> int \<Rightarrow> int \<Rightarrow> Sampler \<Rightarrow> Sampler option" where
  "sampleLoopJs data sampleStep i st =
     (if i < int (length data)
      then sampleLoopJs data sampleStep (i + 4 * sampleStep) (sampleBodyJs data (nat i) st)
      else Some st)"

text \<open>\<open>colors.slice(0, stop)\<close>: \<open>stop\<close> is truncated towards zero; a negative \<open>stop\<close>
  counts from the end of the array.\<close>

definition sliceTo :: "'a list \<Rightarrow> real \<Rightarrow> 'a list" where
  "sliceTo xs stop =
     (let relativeEnd = (if stop < 0 then \<lceil>stop\<rceil> else \<lfloor>stop\<rfloor>);
          len = int (length xs);
          final = (if relativeEnd < 0 then max (len + relativeEnd) 0 else min relativeEnd len)
      in take (nat final) xs)"

definition toPaletteColorJs :: "RawColor \<Rightarrow> PaletteColor" where
  "toPaletteColorJs c =
     (let hex = rgbToHex (r c) (g c) (b c);
          textColor = bestTextColor (real_of_int (r c)) (real_of_int (g c)) (real_of_int (b c))
      in \<lparr>paletteColor = hex, textColor = textColor,
          PaletteColor.population = RawColor.population c,
          PaletteColor.percentage = the (RawColor.percentage c)\<rparr>)"

definition paletteFromDataJs ::
  "byte list \<Rightarrow> real \<Rightarrow> int \<Rightarrow> real \<Rightarrow> PaletteColor list option" where
  "paletteFromDataJs data paletteSize sampleStep nearDuplicateThreshold =
     (case sampleLoopJs data sampleStep 0 emptySampler of
        None \<Rightarrow> None
      | Some st \<Rightarrow>
          Some (if totalSamples st = 0 then []
                else map toPaletteColorJs (sliceTo (ranked st nearDuplicateThreshold) paletteSize)))"

section \<open>A palette size that is not a number\<close>

text \<open>
  \<open>paletteSize\<close> is a JavaScript number, and \<open>NaN\<close> is one.  \<open>Math.floor\<close> of \<open>NaN\<close> is
  \<open>NaN\<close>, \<open>Math.max\<close> with a \<open>NaN\<close> argument is \<open>NaN\<close>, and \<open>slice(0, NaN)\<close> takes \<open>NaN\<close>
  as 0.  \<open>limitedColorsN\<close> is \<open>colors.slice(0, Math.max(1, Math.floor(paletteSize)))\<close> of
  \<open>lib/getColorPalette.ts\<close> with \<open>NaN\<close> admitted, and \<open>paletteFromDataN\<close> the pipeline with
  it; \<open>limitedColors\<close> and \<open>paletteFromData\<close> above are the same for every other number.
\<close>

datatype number = Num real | NaN

definition Math_floor :: "number \<Rightarrow> number" where
  "Math_floor x = (case x of Num v \<Rightarrow> Num (real_of_int \<lfloor>v\<rfloor>) | NaN \<Rightarrow> NaN)"

definition Math_max :: "number \<Rightarrow> number \<Rightarrow> number" where
  "Math_max x y =
     (case x of
        NaN \<Rightarrow> NaN
      | Num v \<Rightarrow> (case y of NaN \<Rightarrow> NaN | Num w \<Rightarrow> Num (max v w)))"

definition sliceToN :: "'a list \<Rightarrow> number \<Rightarrow> 'a list" where
  "sliceToN xs stop = (case stop of Num v \<Rightarrow> sliceTo xs v | NaN \<Rightarrow> sliceTo xs 0)"

definition limitedColorsN :: "Sampler \<Rightarrow> number \<Rightarrow> real \<Rightarrow> RawColor list" where
  "limitedColorsN st paletteSize nearDuplicateThreshold =
     sliceToN (ranked st nearDuplicateThreshold) (Math_max (Num 1) (Math_floor paletteSize))"

definition paletteFromDataN :: "byte list \<Rightarrow> number \<Rightarrow> real \<Rightarrow> real \<Rightarrow> PaletteColor list" where
  "paletteFromDataN data paletteSize sampleStep nearDuplicateThreshold =
     (let st = sampleLoop data sampleStep 0 emptySampler
      in if totalSamples st = 0 then []
         else map toPaletteColor (limitedColorsN st paletteSize nearDuplicateThreshold))"

section \<open>Entry points\<close>

text \<open>
  What the function needs from the browser: whether the argument is an
  \<open>HTMLImageElement\<close>, whether the image loads, whether the canvas gives a 2D context,
  and the buffer \<open>getImageData\<close> returns for the canvas sized from \<open>maxResolution\<close>
  (\<open>None\<close> when \<open>getImageData\<close> throws).  Each \<open>throw\<close> of the source is an error value.
\<close>

datatype error = NotAnImageElement | ImageFailedToLoad | NoCanvasContext | ImageDataUnreadable

record Image =
  isImageElement :: bool
  loads :: bool
  hasContext :: bool
  imageData :: "real \<Rightarrow> byte list option"

record PaletteConfig =
  paletteSize :: real
  maxResolution :: real
  sampleStep :: real
  nearDuplicateThreshold :: real

text \<open>\<open>lib/paletteConfig.ts\<close>.\<close>

definition PALETTE_DEFAULTS :: PaletteConfig where
  "PALETTE_DEFAULTS =
     \<lparr>paletteSize = 10, maxResolution = 1024, sampleStep = 2, nearDuplicateThreshold = 50\<rparr>"

text \<open>An argument left out (\<open>None\<close>) takes its default.\<close>

definition getColorPaletteFromImageElement ::
  "Image \<Rightarrow> real option \<Rightarrow> real option \<Rightarrow> real option \<Rightarrow> real option
     \<Rightarrow> error + PaletteColor list" where
  "getColorPaletteFromImageElement img paletteSizeArg maxResolutionArg sampleStepArg
       nearDuplicateThresholdArg =
     (let paletteSize = (case paletteSizeArg of Some v \<Rightarrow> v
                         | None \<Rightarrow> PaletteConfig.paletteSize PALETTE_DEFAULTS);
          maxResolution = (case maxResolutionArg of Some v \<Rightarrow> v
                           | None \<Rightarrow> PaletteConfig.maxResolution PALETTE_DEFAULTS);
          sampleStep = (case sampleStepArg of Some v \<Rightarrow> v
                        | None \<Rightarrow> PaletteConfig.sampleStep PALETTE_DEFAULTS);
          nearDuplicateThreshold = (case nearDuplicateThresholdArg of Some v \<Rightarrow> v
                                    | None \<Rightarrow> PaletteConfig.nearDuplicateThreshold PALETTE_DEFAULTS)
      in if \<not> isImageElement img then Inl NotAnImageElement
         else if \<not> loads img then Inl ImageFailedToLoad
         else if \<not> hasContext img then Inl NoCanvasContext
         else case imageData img maxResolution of
                None \<Rightarrow> Inl ImageDataUnreadable
              | Some data \<Rightarrow> Inr (paletteFromData data paletteSize sampleStep nearDuplicateThreshold))"

definition jsDefaults :: PaletteConfig where
  "jsDefaults =
     \<lparr>paletteSize = 10, maxResolution = 1024, sampleStep = 2, nearDuplicateThreshold = 50\<rparr>"

definition getColorPaletteFromImageElementJs ::
  "Image \<Rightarrow> real option \<Rightarrow> real option \<Rightarrow> int option \<Rightarrow> real option
     \<Rightarrow> (error + PaletteColor list) option" where
  "getColorPaletteFromImageElementJs img paletteSizeArg maxResolutionArg sampleStepArg
       nearDuplicateThresholdArg =
     (let paletteSize = (case paletteSizeArg of Some v \<Rightarrow> v | None \<Rightarrow> 10);
          maxResolution = (case maxResolutionArg of Some v \<Rightarrow> v | None \<Rightarrow> 1024);
          sampleStep = (case sampleStepArg of Some v \<Rightarrow> v | None \<Rightarrow> 2);
          nearDuplicateThreshold = (case nearDuplicateThresholdArg of Some v \<Rightarrow> v | None \<Rightarrow> 50)
      in if \<not> isImageElement img then Some (Inl NotAnImageElement)
         else if \<not> loads img then Some (Inl ImageFailedToLoad)
         else if \<not> hasContext img then Some (Inl NoCanvasContext)
         else case imageData img maxResolution of
                None \<Rightarrow> Some (Inl ImageDataUnreadable)
              | Some data \<Rightarrow>
                  map_option Inr (paletteFromDataJs data paletteSize sampleStep nearDuplicateThreshold))"

section \<open>Notions used to state the properties\<close>

text \<open>The buffer indices at which the sampling loop runs its body, in order.\<close>

function visited :: "nat \<Rightarrow> real \<Rightarrow> nat \<Rightarrow> nat list" where
  "visited n s i = (if i < n then i # visited n s (i + stride s) else [])"
  by pat_completeness auto
termination
  by (relation "measure (\<lambda>(n, s, i). n - i)") (auto simp: stride_def)

declare visited.simps [simp del]

text \<open>A sampled pixel is accepted when its alpha byte is at least 128.\<close>

definition accepted :: "byte list \<Rightarrow> nat \<Rightarrow> bool" where
  "accepted data i = (\<not> uint (data ! (i + 3)) < 128)"

text \<open>The squared distance, an integer, for deciding \<open>dist \<le> threshold\<close> without a
  square root.\<close>

definition distSq :: "RawColor \<Rightarrow> RawColor \<Rightarrow> int" where
  "distSq c1 c2 =
     (r c1 - r c2) * (r c1 - r c2) + (g c1 - g c2) * (g c1 - g c2) + (b c1 - b c2) * (b c1 - b c2)"

text \<open>The first cluster from index \<open>i\<close> on that lies within the threshold of \<open>color\<close>.\<close>

function firstWithin :: "RawColor list \<Rightarrow> RawColor \<Rightarrow> real \<Rightarrow> nat \<Rightarrow> nat option" where
  "firstWithin merged color threshold i =
     (if i < length merged
      then (if colorDistance color (merged ! i) \<le> threshold then Some i
            else firstWithin merged color threshold (i + 1))
      else None)"
  by pat_completeness auto
termination
  by (relation "measure (\<lambda>(merged, color, threshold, i). length merged - i)") auto

declare firstWithin.simps [simp del]

text \<open>
  The merge loop with a record of what each cluster has absorbed: \<open>members ! j\<close> lists
  the buckets that went into \<open>merged ! j\<close>, in the order of their arrival.
\<close>

fun trackLoop ::
  "RawColor list \<Rightarrow> real \<Rightarrow> RawColor list \<times> RawColor list list
     \<Rightarrow> RawColor list \<times> RawColor list list" where
  "trackLoop [] threshold (merged, members) = (merged, members)"
| "trackLoop (color # colors) threshold (merged, members) =
     (case firstWithin merged color threshold 0 of
        Some j \<Rightarrow>
          trackLoop colors threshold
            (merged[j := absorb (merged ! j) color], members[j := members ! j @ [color]])
      | None \<Rightarrow> trackLoop colors threshold (merged @ [color], members @ [ [color] ]))"

definition absorbed :: "RawColor list \<Rightarrow> real \<Rightarrow> RawColor list list" where
  "absorbed colors threshold = snd (trackLoop colors threshold ([], []))"

text \<open>A bucket of the colour map is sound when it counts at least one sample and each
  channel sum is a sum of that many bytes.\<close>

definition entryOk :: "Entry \<Rightarrow> bool" where
  "entryOk e \<longleftrightarrow>
     1 \<le> count e \<and> 0 \<le> rSum e \<and> rSum e \<le> 255 * count e
       \<and> 0 \<le> gSum e \<and> gSum e \<le> 255 * count e
       \<and> 0 \<le> bSum e \<and> bSum e \<le> 255 * count e"

definition samplerOk :: "Sampler \<Rightarrow> bool" where
  "samplerOk st \<longleftrightarrow>
     list_all entryOk (mapValues (colorMap st))
       \<and> sum_list (map count (mapValues (colorMap st))) = totalSamples st"

text \<open>A colour is sound when its channels are bytes and its population is positive.\<close>

definition colorOk :: "RawColor \<Rightarrow> bool" where
  "colorOk c \<longleftrightarrow>
     0 \<le> r c \<and> r c \<le> 255 \<and> 0 \<le> g c \<and> g c \<le> 255 \<and> 0 \<le> b c \<and> b c \<le> 255
       \<and> 1 \<le> population c"

definition isHexDigit :: "char \<Rightarrow> bool" where
  "isHexDigit c \<longleftrightarrow> c \<in> set ''0123456789abcdef''"

text \<open>Example buffers.\<close>

definition onePixel :: "byte list" where
  "onePixel = [255, 0, 0, 255]"

definition threePixels :: "byte list" where
  "threePixels = [255, 0, 0, 255,  255, 0, 0, 255,  0, 0, 255, 255]"

definition transparentPixel :: "byte list" where
  "transparentPixel = [255, 0, 0, 0]"

definition fourPixels :: "byte list" where
  "fourPixels = [255, 0, 0, 255,  255, 0, 0, 255,  0, 255, 0, 255,  0, 0, 255, 255]"

definition tenPixels :: "byte list" where
  "tenPixels =
     [100, 100, 100, 255,  100, 100, 100, 255,  100, 100, 100, 255,  100, 100, 100, 255,
      132, 100, 100, 255,  132, 100, 100, 255,  132, 100, 100, 255,
      70, 100, 100, 255,  70, 100, 100, 255,
      90, 130, 100, 255]"

text \<open>Example colours: the buckets of \<open>tenPixels\<close>, largest population first.\<close>

definition grey :: RawColor where
  "grey = \<lparr>r = 100, g = 100, b = 100, population = 4, percentage = None\<rparr>"

definition rose :: RawColor where
  "rose = \<lparr>r = 132, g = 100, b = 100, population = 3, percentage = None\<rparr>"

definition slate :: RawColor where
  "slate = \<lparr>r = 70, g = 100, b = 100, population = 2, percentage = None\<rparr>"

definition moss :: RawColor where
  "moss = \<lparr>r = 90, g = 130, b = 100, population = 1, percentage = None\<rparr>"

section \<open>The sampling loop\<close>

lemma stride_ge_4: "4 \<le> stride s"
  by (simp add: stride_def)

lemma stride_mod_4: "stride s mod 4 = 0"
proof -
  have "stride s = 4 * nat (max 1 \<lfloor>s\<rfloor>)"
    by (simp add: stride_def nat_mult_distrib)
  then show ?thesis by simp
qed

lemma sampleLoop_visited:
  "sampleLoop data s i st = foldl (\<lambda>st i. sampleBody data i st) st (visited (length data) s i)"
proof (induction data s i st rule: sampleLoop.induct)
  case (1 data s i st)
  show ?case
  proof (cases "i < length data")
    case True
    then show ?thesis
      using "1.IH" by (subst sampleLoop.simps, subst visited.simps) simp
  next
    case False
    then show ?thesis
      by (subst sampleLoop.simps, subst visited.simps) simp
  qed
qed

lemma visited_in_range:
  "n mod 4 = 0 \<Longrightarrow> i mod 4 = 0 \<Longrightarrow> j \<in> set (visited n s i) \<Longrightarrow> j mod 4 = 0 \<and> j + 3 < n"
proof (induction n s i rule: visited.induct)
  case (1 n s i)
  show ?case
  proof (cases "i < n")
    case True
    have step: "(i + stride s) mod 4 = 0"
      using "1.prems"(2) stride_mod_4 [of s] by (simp add: mod_add_eq [symmetric])
    from True "1.prems"(3) have "j = i \<or> j \<in> set (visited n s (i + stride s))"
      by (subst (asm) visited.simps) simp
    then show ?thesis
    proof
      assume "j = i"
      moreover have "i + 3 < n"
        using True "1.prems"(1,2) by presburger
      ultimately show ?thesis using "1.prems"(2) by simp
    next
      assume "j \<in> set (visited n s (i + stride s))"
      then show ?thesis using "1.IH" [OF True "1.prems"(1) step] by simp
    qed
  next
    case False
    then show ?thesis using "1.prems"(3) by (subst (asm) visited.simps) simp
  qed
qed

lemma visited_lower: "j \<in> set (visited n s i) \<Longrightarrow> i \<le> j"
proof (induction n s i rule: visited.induct)
  case (1 n s i)
  show ?case
  proof (cases "i < n")
    case True
    from True "1.prems" have "j = i \<or> j \<in> set (visited n s (i + stride s))"
      by (subst (asm) visited.simps) simp
    then show ?thesis using "1.IH" [OF True] by auto
  next
    case False
    then show ?thesis using "1.prems" by (subst (asm) visited.simps) simp
  qed
qed

lemma visited_gaps: "sorted_wrt (\<lambda>i j. i + 4 \<le> j) (visited n s i)"
proof (induction n s i rule: visited.induct)
  case (1 n s i)
  show ?case
  proof (cases "i < n")
    case True
    have "\<forall>j \<in> set (visited n s (i + stride s)). i + 4 \<le> j"
      using visited_lower [of _ n s "i + stride s"] stride_ge_4 [of s] by fastforce
    then show ?thesis
      using "1.IH" [OF True] True by (subst visited.simps) simp
  next
    case False
    then show ?thesis by (subst visited.simps) simp
  qed
qed

lemma visited_length: "length (visited n s i) \<le> (n - i + 3) div 4"
proof (induction n s i rule: visited.induct)
  case (1 n s i)
  show ?case
  proof (cases "i < n")
    case True
    have "length (visited n s i) = Suc (length (visited n s (i + stride s)))"
      using True by (subst visited.simps) simp
    also have "\<dots> \<le> Suc ((n - (i + stride s) + 3) div 4)"
      using "1.IH" [OF True] by simp
    also have "\<dots> \<le> (n - i + 3) div 4"
      using True stride_ge_4 [of s] by presburger
    finally show ?thesis .
  next
    case False
    then show ?thesis by (subst visited.simps) simp
  qed
qed

section \<open>The colour map\<close>

lemma byte_range: "0 \<le> uint (w :: byte) \<and> uint w \<le> 255"
  using uint_lt2p [of w] by simp

lemma mapGet_values: "mapGet m k = Some e \<Longrightarrow> e \<in> set (mapValues m)"
  by (induction m) (auto simp: mapValues_def split: if_splits)

lemma mapSet_values_aux:
  "(k', e) \<in> set (mapSet m k v) \<Longrightarrow> e = v \<or> e \<in> snd ` set m"
  by (induction m) (force split: if_splits)+

lemma mapSet_values:
  "set (mapValues (mapSet m k v)) \<subseteq> insert v (set (mapValues m))"
proof
  fix e assume "e \<in> set (mapValues (mapSet m k v))"
  then obtain k' where "(k', e) \<in> set (mapSet m k v)"
    by (auto simp: mapValues_def)
  then have "e = v \<or> e \<in> snd ` set m" by (rule mapSet_values_aux)
  then show "e \<in> insert v (set (mapValues m))" by (auto simp: mapValues_def)
qed

lemma mapSet_count_present:
  "mapGet m k = Some e \<Longrightarrow>
     sum_list (map count (mapValues (mapSet m k v))) = sum_list (map count (mapValues m)) - count e + count v"
  by (induction m) (auto simp: mapValues_def split: if_splits)

lemma mapSet_count_absent:
  "mapGet m k = None \<Longrightarrow>
     sum_list (map count (mapValues (mapSet m k v))) = sum_list (map count (mapValues m)) + count v"
  by (induction m) (auto simp: mapValues_def split: if_splits)

lemma mapSet_nonempty: "mapSet m k v \<noteq> []"
  by (cases m) (auto split: if_splits)

lemma sampleBody_rejected: "\<not> accepted data i \<Longrightarrow> sampleBody data i st = st"
  by (simp add: sampleBody_def accepted_def Let_def)

lemma sampleBody_total:
  "totalSamples (sampleBody data i st) = totalSamples st + (if accepted data i then 1 else 0)"
  by (simp add: sampleBody_def accepted_def Let_def)

lemma sampleBody_ok:
  assumes "samplerOk st"
  shows "samplerOk (sampleBody data i st)"
proof (cases "accepted data i")
  case False
  then show ?thesis using assms by (simp add: sampleBody_rejected)
next
  case True
  define rv where "rv = uint (data ! i)"
  define gv where "gv = uint (data ! (i + 1))"
  define bv where "bv = uint (data ! (i + 2))"
  define key where "key = (push_bit 8 (drop_bit 4 rv)) OR (push_bit 4 (drop_bit 4 gv)) OR (drop_bit 4 bv)"
  define entry where "entry = (case mapGet (colorMap st) key of Some e \<Rightarrow> e
                                | None \<Rightarrow> \<lparr>count = 0, rSum = 0, gSum = 0, bSum = 0\<rparr>)"
  define entry' where "entry' = \<lparr>count = count entry + 1, rSum = rSum entry + rv,
                         gSum = gSum entry + gv, bSum = bSum entry + bv\<rparr>"
  have body: "sampleBody data i st =
      \<lparr>colorMap = mapSet (colorMap st) key entry', totalSamples = totalSamples st + 1\<rparr>"
    using True
    by (simp add: sampleBody_def accepted_def Let_def rv_def gv_def bv_def key_def entry_def entry'_def)
  have rng: "0 \<le> rv \<and> rv \<le> 255 \<and> 0 \<le> gv \<and> gv \<le> 255 \<and> 0 \<le> bv \<and> bv \<le> 255"
    using byte_range by (simp add: rv_def gv_def bv_def)
  have all: "\<forall>e \<in> set (mapValues (colorMap st)). entryOk e"
    using assms by (simp add: samplerOk_def list_all_iff)
  have sum: "sum_list (map count (mapValues (colorMap st))) = totalSamples st"
    using assms by (simp add: samplerOk_def)
  have weak: "0 \<le> count entry \<and> 0 \<le> rSum entry \<and> rSum entry \<le> 255 * count entry
       \<and> 0 \<le> gSum entry \<and> gSum entry \<le> 255 * count entry
       \<and> 0 \<le> bSum entry \<and> bSum entry \<le> 255 * count entry"
  proof (cases "mapGet (colorMap st) key")
    case None
    then show ?thesis by (simp add: entry_def)
  next
    case (Some e)
    then have "entryOk e" using all mapGet_values by blast
    then show ?thesis using Some by (simp add: entry_def entryOk_def)
  qed
  have ok': "entryOk entry'"
    using weak rng by (simp add: entry'_def entryOk_def)
  have all': "\<forall>e \<in> set (mapValues (mapSet (colorMap st) key entry')). entryOk e"
    using all ok' mapSet_values [of "colorMap st" key entry'] by blast
  have sum': "sum_list (map count (mapValues (mapSet (colorMap st) key entry'))) = totalSamples st + 1"
  proof (cases "mapGet (colorMap st) key")
    case None
    then show ?thesis
      using sum by (simp add: mapSet_count_absent entry'_def entry_def)
  next
    case (Some e)
    then show ?thesis
      using sum by (simp add: mapSet_count_present entry'_def entry_def)
  qed
  show ?thesis
    using all' sum' by (simp add: body samplerOk_def list_all_iff)
qed

lemma sampleBody_map_nonempty:
  "accepted data i \<Longrightarrow> colorMap (sampleBody data i st) \<noteq> []"
  by (simp add: sampleBody_def accepted_def Let_def mapSet_nonempty)

lemma foldl_sampleBody_ok:
  "samplerOk st \<Longrightarrow> samplerOk (foldl (\<lambda>st i. sampleBody data i st) st is)"
  by (induction "is" arbitrary: st) (simp_all add: sampleBody_ok)

lemma foldl_sampleBody_total:
  "totalSamples (foldl (\<lambda>st i. sampleBody data i st) st is)
     = totalSamples st + int (length (filter (accepted data) is))"
  by (induction "is" arbitrary: st) (simp_all add: sampleBody_total)

lemma emptySampler_ok: "samplerOk emptySampler"
  by (simp add: samplerOk_def emptySampler_def mapValues_def)

lemma sampleLoop_ok: "samplerOk (sampleLoop data s 0 emptySampler)"
  by (simp add: sampleLoop_visited foldl_sampleBody_ok emptySampler_ok)

lemma sampleLoop_total:
  "totalSamples (sampleLoop data s 0 emptySampler)
     = int (length (filter (accepted data) (visited (length data) s 0)))"
  by (simp add: sampleLoop_visited foldl_sampleBody_total emptySampler_def)

lemma sampleLoop_total_zero_iff:
  "totalSamples (sampleLoop data s 0 emptySampler) = 0
     \<longleftrightarrow> (\<forall>i \<in> set (visited (length data) s 0). \<not> accepted data i)"
  by (simp add: sampleLoop_total filter_empty_conv)

section \<open>Averaging\<close>

lemma Math_round_range:
  assumes "1 \<le> n" "0 \<le> a" "a \<le> 255 * n"
  shows "0 \<le> Math_round (real_of_int a / real_of_int n) \<and> Math_round (real_of_int a / real_of_int n) \<le> 255"
proof -
  have n: "0 < real_of_int n" using assms(1) by simp
  have lo: "0 \<le> real_of_int a / real_of_int n" using assms(1,2) by simp
  have "real_of_int a \<le> 255 * real_of_int n"
    using assms(3) by (metis of_int_le_iff of_int_mult of_int_numeral)
  then have hi: "real_of_int a / real_of_int n \<le> 255"
    using n by (simp add: pos_divide_le_eq)
  have "0 \<le> \<lfloor>real_of_int a / real_of_int n + 1 / 2\<rfloor>"
    using lo by simp
  moreover have "\<lfloor>real_of_int a / real_of_int n + 1 / 2\<rfloor> \<le> 255"
    using hi by (simp add: floor_le_iff)
  ultimately show ?thesis by (simp add: Math_round_def)
qed

lemma averaged_ok: "entryOk e \<Longrightarrow> colorOk (averaged e)"
  using Math_round_range [of "count e" "rSum e"] Math_round_range [of "count e" "gSum e"]
    Math_round_range [of "count e" "bSum e"]
  by (simp add: entryOk_def colorOk_def averaged_def Let_def)

lemma averaged_population: "population (averaged e) = count e"
  by (simp add: averaged_def Let_def)

lemma weighted_range:
  assumes "0 \<le> x" "x \<le> 255" "0 \<le> y" "y \<le> 255" "1 \<le> (m::int)" "1 \<le> n"
  shows "0 \<le> x * m + y * n \<and> x * m + y * n \<le> 255 * (m + n)"
proof -
  have "x * m \<le> 255 * m" using assms by (simp add: mult_right_mono)
  moreover have "y * n \<le> 255 * n" using assms by (simp add: mult_right_mono)
  moreover have "0 \<le> x * m" "0 \<le> y * n" using assms by simp_all
  ultimately show ?thesis by (simp add: distrib_left)
qed

lemma absorb_ok:
  assumes "colorOk cluster" "colorOk color"
  shows "colorOk (absorb cluster color)"
proof -
  let ?n = "population cluster + population color"
  have n: "1 \<le> ?n" using assms by (simp add: colorOk_def)
  have R: "0 \<le> r cluster * population cluster + r color * population color
      \<and> r cluster * population cluster + r color * population color \<le> 255 * ?n"
    using assms by (intro weighted_range) (simp_all add: colorOk_def)
  have G: "0 \<le> g cluster * population cluster + g color * population color
      \<and> g cluster * population cluster + g color * population color \<le> 255 * ?n"
    using assms by (intro weighted_range) (simp_all add: colorOk_def)
  have B: "0 \<le> b cluster * population cluster + b color * population color
      \<and> b cluster * population cluster + b color * population color \<le> 255 * ?n"
    using assms by (intro weighted_range) (simp_all add: colorOk_def)
  show ?thesis
    using Math_round_range [OF n conjunct1 [OF R] conjunct2 [OF R]]
      Math_round_range [OF n conjunct1 [OF G] conjunct2 [OF G]]
      Math_round_range [OF n conjunct1 [OF B] conjunct2 [OF B]] n
    by (simp add: absorb_def Let_def colorOk_def)
qed

lemma absorb_population:
  "population (absorb cluster color) = population cluster + population color"
  by (simp add: absorb_def Let_def)

section \<open>The merge loop\<close>

lemma distSq_nonneg: "0 \<le> distSq c1 c2"
  by (simp add: distSq_def)

lemma colorDistance_le_iff:
  "colorDistance c1 c2 \<le> t \<longleftrightarrow> 0 \<le> t \<and> real_of_int (distSq c1 c2) \<le> t * t"
proof -
  have d: "colorDistance c1 c2 = sqrt (real_of_int (distSq c1 c2))"
    by (simp add: colorDistance_def distSq_def Let_def)
  have n: "0 \<le> real_of_int (distSq c1 c2)" using distSq_nonneg by simp
  show ?thesis
  proof (cases "0 \<le> t")
    case True
    then have "sqrt (real_of_int (distSq c1 c2)) \<le> t \<longleftrightarrow> real_of_int (distSq c1 c2) \<le> t\<^sup>2"
      using n by (metis real_sqrt_le_iff real_sqrt_abs abs_of_nonneg)
    then show ?thesis using True d by (simp add: power2_eq_square)
  next
    case False
    then have "\<not> sqrt (real_of_int (distSq c1 c2)) \<le> t"
      using n real_sqrt_ge_zero [OF n] by linarith
    then show ?thesis using False d by simp
  qed
qed

lemma scanClusters_code [code]:
  "scanClusters merged color threshold i =
     (if i < length merged
      then (if 0 \<le> threshold \<and> real_of_int (distSq color (merged ! i)) \<le> threshold * threshold
            then (merged[i := absorb (merged ! i) color], True)
            else scanClusters merged color threshold (i + 1))
      else (merged, False))"
  by (subst scanClusters.simps) (simp add: Let_def colorDistance_le_iff)

lemma firstWithin_code [code]:
  "firstWithin merged color threshold i =
     (if i < length merged
      then (if 0 \<le> threshold \<and> real_of_int (distSq color (merged ! i)) \<le> threshold * threshold
            then Some i
            else firstWithin merged color threshold (i + 1))
      else None)"
  by (subst firstWithin.simps) (simp add: colorDistance_le_iff)

lemma scanClusters_firstWithin:
  "scanClusters merged color t i =
     (case firstWithin merged color t i of
        Some j \<Rightarrow> (merged[j := absorb (merged ! j) color], True)
      | None \<Rightarrow> (merged, False))"
proof (induction merged color t i rule: scanClusters.induct)
  case (1 merged color t i)
  show ?case
  proof (cases "i < length merged")
    case False
    then show ?thesis
      by (subst scanClusters.simps, subst firstWithin.simps) simp
  next
    case True
    show ?thesis
    proof (cases "colorDistance color (merged ! i) \<le> t")
      case True
      with \<open>i < length merged\<close> show ?thesis
        by (subst scanClusters.simps, subst firstWithin.simps) (simp add: Let_def)
    next
      case False
      with \<open>i < length merged\<close> "1.IH" show ?thesis
        by (subst scanClusters.simps, subst firstWithin.simps) (simp add: Let_def)
    qed
  qed
qed

lemma firstWithin_Some:
  "firstWithin merged color t i = Some j \<Longrightarrow>
     i \<le> j \<and> j < length merged \<and> colorDistance color (merged ! j) \<le> t
       \<and> (\<forall>k. i \<le> k \<and> k < j \<longrightarrow> \<not> colorDistance color (merged ! k) \<le> t)"
proof (induction merged color t i rule: firstWithin.induct)
  case (1 merged color t i)
  show ?case
  proof (cases "i < length merged")
    case False
    then show ?thesis using "1.prems" by (subst (asm) firstWithin.simps) simp
  next
    case True
    show ?thesis
    proof (cases "colorDistance color (merged ! i) \<le> t")
      case True
      with \<open>i < length merged\<close> "1.prems" have "j = i"
        by (subst (asm) firstWithin.simps) simp
      then show ?thesis using True \<open>i < length merged\<close> by simp
    next
      case False
      with \<open>i < length merged\<close> "1.prems"
      have "firstWithin merged color t (i + 1) = Some j"
        by (subst (asm) firstWithin.simps) simp
      from "1.IH" [OF \<open>i < length merged\<close> False this]
      have ih: "i + 1 \<le> j \<and> j < length merged \<and> colorDistance color (merged ! j) \<le> t
          \<and> (\<forall>k. i + 1 \<le> k \<and> k < j \<longrightarrow> \<not> colorDistance color (merged ! k) \<le> t)" .
      have "\<not> colorDistance color (merged ! k) \<le> t" if "i \<le> k" "k < j" for k
      proof (cases "k = i")
        case True
        then show ?thesis using False by simp
      next
        case False
        then have "i + 1 \<le> k" using that(1) by simp
        then show ?thesis using ih that(2) by blast
      qed
      then show ?thesis using ih by auto
    qed
  qed
qed

lemma firstWithin_None:
  "firstWithin merged color t i = None \<Longrightarrow>
     (\<forall>k. i \<le> k \<and> k < length merged \<longrightarrow> \<not> colorDistance color (merged ! k) \<le> t)"
proof (induction merged color t i rule: firstWithin.induct)
  case (1 merged color t i)
  show ?case
  proof (cases "i < length merged")
    case False
    then show ?thesis by simp
  next
    case True
    from True "1.prems" have no: "\<not> colorDistance color (merged ! i) \<le> t"
      by (subst (asm) firstWithin.simps) (simp split: if_splits)
    with True "1.prems" have "firstWithin merged color t (i + 1) = None"
      by (subst (asm) firstWithin.simps) simp
    from "1.IH" [OF True no this]
    have ih: "\<forall>k. i + 1 \<le> k \<and> k < length merged \<longrightarrow> \<not> colorDistance color (merged ! k) \<le> t" .
    have "\<not> colorDistance color (merged ! k) \<le> t" if "i \<le> k" "k < length merged" for k
    proof (cases "k = i")
      case True
      then show ?thesis using no by simp
    next
      case False
      then have "i + 1 \<le> k" using that(1) by simp
      then show ?thesis using ih that(2) by blast
    qed
    then show ?thesis by blast
  qed
qed

lemma firstWithin_unique:
  assumes "j < length merged" "colorDistance color (merged ! j) \<le> t"
    "\<forall>k<j. \<not> colorDistance color (merged ! k) \<le> t"
  shows "firstWithin merged color t 0 = Some j"
proof (cases "firstWithin merged color t 0")
  case None
  then show ?thesis using firstWithin_None [OF None] assms by auto
next
  case (Some j')
  from firstWithin_Some [OF Some]
  have j': "j' < length merged" "colorDistance color (merged ! j') \<le> t"
    "\<forall>k. k < j' \<longrightarrow> \<not> colorDistance color (merged ! k) \<le> t" by auto
  have "\<not> j' < j" using assms(3) j'(2) by blast
  moreover have "\<not> j < j'" using j'(3) assms(2) by blast
  ultimately show ?thesis using Some by simp
qed

lemma mergeStep_firstWithin:
  "mergeStep merged color t =
     (case firstWithin merged color t 0 of
        Some j \<Rightarrow> merged[j := absorb (merged ! j) color]
      | None \<Rightarrow> merged @ [color])"
  by (simp add: mergeStep_def scanClusters_firstWithin split: option.split)

lemma mergeLoop_foldl:
  "mergeLoop colors t merged = foldl (\<lambda>m c. mergeStep m c t) merged colors"
  by (induction colors arbitrary: merged) simp_all

text \<open>
  Claim C1.  One pass of the outer loop of \<open>mergeSimilarColors\<close> puts the colour into the
  first cluster, in the order of the list, whose distance to it is at most the threshold:
  that cluster is replaced where it stands by one whose population is the sum of the two
  and whose channels are the rounded population-weighted means; the other clusters keep
  their values and places.  When no cluster is within the threshold the colour is
  appended.  The whole function is the passes in turn, from the empty list, and it is what
  the pipeline runs for a positive threshold.
\<close>

theorem mergeSimilarColors_first_match:
  assumes "1 \<le> population color" and "\<forall>c \<in> set merged. 1 \<le> population c"
  shows
    "(\<forall>j. j < length merged \<and> colorDistance color (merged ! j) \<le> t
          \<and> (\<forall>k<j. \<not> colorDistance color (merged ! k) \<le> t) \<longrightarrow>
        0 < population (merged ! j) + population color \<and>
        mergeStep merged color t =
          merged[j := \<lparr>r = Math_round
                          (real_of_int (r (merged ! j) * population (merged ! j) + r color * population color)
                             / real_of_int (population (merged ! j) + population color)),
                        g = Math_round
                          (real_of_int (g (merged ! j) * population (merged ! j) + g color * population color)
                             / real_of_int (population (merged ! j) + population color)),
                        b = Math_round
                          (real_of_int (b (merged ! j) * population (merged ! j) + b color * population color)
                             / real_of_int (population (merged ! j) + population color)),
                        population = population (merged ! j) + population color,
                        percentage = None\<rparr>])
     \<and> ((\<forall>k<length merged. \<not> colorDistance color (merged ! k) \<le> t) \<longrightarrow>
          mergeStep merged color t = merged @ [color])
     \<and> mergeSimilarColors colors t = foldl (\<lambda>m c. mergeStep m c t) [] colors
     \<and> (0 < t \<longrightarrow> clusters colors t = mergeSimilarColors colors t)"
proof (intro conjI allI impI)
  fix j
  assume j: "j < length merged \<and> colorDistance color (merged ! j) \<le> t
          \<and> (\<forall>k<j. \<not> colorDistance color (merged ! k) \<le> t)"
  then have "merged ! j \<in> set merged" by simp
  then show "0 < population (merged ! j) + population color"
    using assms by fastforce
  from j have "firstWithin merged color t 0 = Some j"
    by (intro firstWithin_unique) simp_all
  then show "mergeStep merged color t =
          merged[j := \<lparr>r = Math_round
                          (real_of_int (r (merged ! j) * population (merged ! j) + r color * population color)
                             / real_of_int (population (merged ! j) + population color)),
                        g = Math_round
                          (real_of_int (g (merged ! j) * population (merged ! j) + g color * population color)
                             / real_of_int (population (merged ! j) + population color)),
                        b = Math_round
                          (real_of_int (b (merged ! j) * population (merged ! j) + b color * population color)
                             / real_of_int (population (merged ! j) + population color)),
                        population = population (merged ! j) + population color,
                        percentage = None\<rparr>]"
    by (simp add: mergeStep_firstWithin absorb_def Let_def)
next
  assume none: "\<forall>k<length merged. \<not> colorDistance color (merged ! k) \<le> t"
  have "firstWithin merged color t 0 = None"
  proof (cases "firstWithin merged color t 0")
    case None
    then show ?thesis .
  next
    case (Some j)
    from firstWithin_Some [OF Some] none show ?thesis by blast
  qed
  then show "mergeStep merged color t = merged @ [color]"
    by (simp add: mergeStep_firstWithin)
next
  show "mergeSimilarColors colors t = foldl (\<lambda>m c. mergeStep m c t) [] colors"
    by (simp add: mergeSimilarColors_def mergeLoop_foldl)
next
  assume "0 < t"
  then show "clusters colors t = mergeSimilarColors colors t"
    by (simp add: clusters_def)
qed

theorem mergeSimilarColors_first_match_witness:
  "mergeStep [grey, rose] slate 30
     = [\<lparr>r = 90, g = 100, b = 100, population = 6, percentage = None\<rparr>, rose]
   \<and> mergeStep [grey, rose] moss 30 = [grey, rose, moss]
   \<and> mergeSimilarColors [grey, rose, slate, moss] 30
       = foldl (\<lambda>m c. mergeStep m c 30) [] [grey, rose, slate, moss]
   \<and> clusters [grey, rose, slate, moss] 30 = mergeSimilarColors [grey, rose, slate, moss] 30"
proof -
  have p1: "1 \<le> population slate" by (simp add: slate_def)
  have p2: "1 \<le> population moss" by (simp add: moss_def)
  have q: "\<forall>c \<in> set [grey, rose]. 1 \<le> population c" by (simp add: grey_def rose_def)
  have near: "(0::nat) < length [grey, rose] \<and> colorDistance slate ([grey, rose] ! 0) \<le> 30
          \<and> (\<forall>k<0. \<not> colorDistance slate ([grey, rose] ! k) \<le> 30)"
    by (simp add: colorDistance_le_iff distSq_def grey_def slate_def)
  have far: "\<forall>k<length [grey, rose]. \<not> colorDistance moss ([grey, rose] ! k) \<le> 30"
    by (simp add: colorDistance_le_iff distSq_def grey_def rose_def moss_def less_Suc_eq nth_Cons')
  note a = mergeSimilarColors_first_match [OF p1 q, of 30 "[grey, rose, slate, moss]"]
  note b = mergeSimilarColors_first_match [OF p2 q, of 30 "[grey, rose, slate, moss]"]
  have s1: "mergeStep [grey, rose] slate 30
     = [\<lparr>r = 90, g = 100, b = 100, population = 6, percentage = None\<rparr>, rose]"
    using a [THEN conjunct1, THEN spec, of 0] near
    by (simp add: grey_def slate_def Math_round_def)
  have s2: "mergeStep [grey, rose] moss 30 = [grey, rose, moss]"
    using b [THEN conjunct2, THEN conjunct1] far by simp
  show ?thesis using s1 s2 a [THEN conjunct2, THEN conjunct2] by simp
qed

section \<open>What the merge loop preserves\<close>

lemma sum_list_map_update:
  fixes f :: "'a \<Rightarrow> int"
  shows "j < length xs \<Longrightarrow> sum_list (map f (xs[j := v])) = sum_list (map f xs) - f (xs ! j) + f v"
proof (induction xs arbitrary: j)
  case Nil
  then show ?case by simp
next
  case (Cons x xs)
  then show ?case by (cases j) simp_all
qed

lemma firstWithin_bound: "firstWithin merged color t i = Some j \<Longrightarrow> j < length merged"
  using firstWithin_Some by blast

lemma mergeStep_population:
  "sum_list (map population (mergeStep merged color t))
     = sum_list (map population merged) + population color"
proof (cases "firstWithin merged color t 0")
  case None
  then show ?thesis by (simp add: mergeStep_firstWithin)
next
  case (Some j)
  then have "j < length merged" by (rule firstWithin_bound)
  then show ?thesis
    using Some by (simp add: mergeStep_firstWithin sum_list_map_update absorb_population)
qed

lemma mergeStep_ok:
  assumes "list_all colorOk merged" "colorOk color"
  shows "list_all colorOk (mergeStep merged color t)"
proof (cases "firstWithin merged color t 0")
  case None
  then show ?thesis using assms by (simp add: mergeStep_firstWithin)
next
  case (Some j)
  then have j: "j < length merged" by (rule firstWithin_bound)
  then have "colorOk (merged ! j)" using assms(1) by (simp add: list_all_length)
  then have "colorOk (absorb (merged ! j) color)" using assms(2) by (rule absorb_ok)
  moreover have "set (merged[j := absorb (merged ! j) color])
      \<subseteq> insert (absorb (merged ! j) color) (set merged)"
    by (rule set_update_subset_insert)
  ultimately show ?thesis
    using assms(1) Some by (auto simp: mergeStep_firstWithin list_all_iff)
qed

lemma mergeStep_length:
  "length (mergeStep merged color t)
     = (case firstWithin merged color t 0 of Some j \<Rightarrow> length merged | None \<Rightarrow> Suc (length merged))"
  by (simp add: mergeStep_firstWithin split: option.split)

lemma mergeStep_length_bounds:
  "length merged \<le> length (mergeStep merged color t)
     \<and> length (mergeStep merged color t) \<le> Suc (length merged)
     \<and> 1 \<le> length (mergeStep merged color t)"
proof (cases "firstWithin merged color t 0")
  case None
  then show ?thesis by (simp add: mergeStep_length)
next
  case (Some j)
  then have "j < length merged" by (rule firstWithin_bound)
  then show ?thesis using Some by (simp add: mergeStep_length)
qed

lemma foldl_mergeStep_population:
  "sum_list (map population (foldl (\<lambda>m c. mergeStep m c t) merged colors))
     = sum_list (map population merged) + sum_list (map population colors)"
  by (induction colors arbitrary: merged) (simp_all add: mergeStep_population)

lemma foldl_mergeStep_ok:
  "list_all colorOk merged \<Longrightarrow> list_all colorOk colors \<Longrightarrow>
     list_all colorOk (foldl (\<lambda>m c. mergeStep m c t) merged colors)"
  by (induction colors arbitrary: merged) (simp_all add: mergeStep_ok)

lemma foldl_mergeStep_length:
  "length merged \<le> length (foldl (\<lambda>m c. mergeStep m c t) merged colors)
     \<and> length (foldl (\<lambda>m c. mergeStep m c t) merged colors) \<le> length merged + length colors"
proof (induction colors arbitrary: merged)
  case Nil
  then show ?case by simp
next
  case (Cons c colors)
  show ?case
    using Cons.IH [of "mergeStep merged c t"] mergeStep_length_bounds [of merged c t]
    by simp
qed

lemma mergeSimilarColors_foldl:
  "mergeSimilarColors colors t = foldl (\<lambda>m c. mergeStep m c t) [] colors"
  by (simp add: mergeSimilarColors_def mergeLoop_foldl)

lemma mergeSimilarColors_population:
  "sum_list (map population (mergeSimilarColors colors t)) = sum_list (map population colors)"
  by (simp add: mergeSimilarColors_foldl foldl_mergeStep_population)

lemma mergeSimilarColors_ok:
  "list_all colorOk colors \<Longrightarrow> list_all colorOk (mergeSimilarColors colors t)"
  by (simp add: mergeSimilarColors_foldl foldl_mergeStep_ok)

lemma mergeSimilarColors_length: "length (mergeSimilarColors colors t) \<le> length colors"
  using foldl_mergeStep_length [of "[]" t colors] by (simp add: mergeSimilarColors_foldl)

lemma mergeSimilarColors_nonempty:
  "colors \<noteq> [] \<Longrightarrow> 1 \<le> length (mergeSimilarColors colors t)"
proof (cases colors)
  case Nil
  then show "colors \<noteq> [] \<Longrightarrow> ?thesis" by simp
next
  case (Cons c cs)
  have "1 \<le> length (mergeStep [] c t)"
    using mergeStep_length_bounds [of "[]" c t] by simp
  also have "\<dots> \<le> length (foldl (\<lambda>m c. mergeStep m c t) (mergeStep [] c t) cs)"
    using foldl_mergeStep_length [of "mergeStep [] c t" t cs] by simp
  finally show ?thesis by (simp add: Cons mergeSimilarColors_foldl)
qed

lemma clusters_population:
  "sum_list (map population (clusters colors t)) = sum_list (map population colors)"
  by (simp add: clusters_def mergeSimilarColors_population)

lemma clusters_ok: "list_all colorOk colors \<Longrightarrow> list_all colorOk (clusters colors t)"
  by (simp add: clusters_def mergeSimilarColors_ok)

lemma clusters_length: "length (clusters colors t) \<le> length colors"
  by (simp add: clusters_def mergeSimilarColors_length)

lemma clusters_nonempty: "colors \<noteq> [] \<Longrightarrow> 1 \<le> length (clusters colors t)"
  using mergeSimilarColors_nonempty [of colors t]
  by (cases colors) (simp_all add: clusters_def)

section \<open>A threshold beyond every distance\<close>

lemma square_le_byte:
  fixes d :: int
  assumes "- 255 \<le> d" "d \<le> 255"
  shows "d * d \<le> 65025"
proof -
  have "\<bar>d\<bar> \<le> 255" using assms by simp
  then have "\<bar>d\<bar> * \<bar>d\<bar> \<le> 255 * 255" by (intro mult_mono) simp_all
  then show ?thesis by (simp add: abs_mult_self_eq)
qed

lemma distSq_le: "colorOk c1 \<Longrightarrow> colorOk c2 \<Longrightarrow> distSq c1 c2 \<le> 195075"
  using square_le_byte [of "r c1 - r c2"] square_le_byte [of "g c1 - g c2"]
    square_le_byte [of "b c1 - b c2"]
  by (simp add: distSq_def colorOk_def)

lemma colorDistance_le_442:
  assumes "colorOk c1" "colorOk c2" "442 \<le> t"
  shows "colorDistance c1 c2 \<le> t"
proof -
  have "real_of_int (distSq c1 c2) \<le> 195075"
    using distSq_le [OF assms(1,2)] by (metis of_int_le_iff of_int_numeral)
  moreover have "(442::real) * 442 \<le> t * t"
    using assms(3) by (intro mult_mono) simp_all
  ultimately show ?thesis
    using assms(3) by (simp add: colorDistance_le_iff)
qed

lemma mergeStep_wide:
  assumes "list_all colorOk merged" "colorOk color" "442 \<le> t" "length merged \<le> 1"
  shows "length (mergeStep merged color t) = 1"
proof (cases merged)
  case Nil
  then show ?thesis
    by (simp add: mergeStep_length, subst firstWithin.simps) simp
next
  case (Cons c cs)
  then have cs: "cs = []" using assms(4) by simp
  have "colorDistance color c \<le> t"
    using assms(1,2,3) Cons by (intro colorDistance_le_442) simp_all
  then have "firstWithin merged color t 0 = Some 0"
    using Cons by (subst firstWithin.simps) simp
  then show ?thesis using Cons cs by (simp add: mergeStep_length)
qed

lemma foldl_mergeStep_wide:
  "list_all colorOk merged \<Longrightarrow> list_all colorOk colors \<Longrightarrow> 442 \<le> t \<Longrightarrow> length merged \<le> 1 \<Longrightarrow>
     length (foldl (\<lambda>m c. mergeStep m c t) merged colors) \<le> 1"
proof (induction colors arbitrary: merged)
  case Nil
  then show ?case by simp
next
  case (Cons c colors)
  have "length (mergeStep merged c t) = 1"
    using Cons.prems by (intro mergeStep_wide) simp_all
  moreover have "list_all colorOk (mergeStep merged c t)"
    using Cons.prems by (intro mergeStep_ok) simp_all
  ultimately show ?case
    using Cons.IH [of "mergeStep merged c t"] Cons.prems by simp
qed

lemma mergeSimilarColors_wide:
  "list_all colorOk colors \<Longrightarrow> 442 \<le> t \<Longrightarrow> length (mergeSimilarColors colors t) \<le> 1"
  using foldl_mergeStep_wide [of "[]" colors t] by (simp add: mergeSimilarColors_foldl)

section \<open>What each cluster has absorbed\<close>

lemma trackLoop_merged:
  "fst (trackLoop colors t (merged, members)) = mergeLoop colors t merged"
  by (induction colors arbitrary: merged members)
    (simp_all add: mergeStep_firstWithin split: option.split)

lemma trackLoop_sums:
  "map (\<lambda>ms. sum_list (map population ms)) members = map population merged \<Longrightarrow>
     map (\<lambda>ms. sum_list (map population ms)) (snd (trackLoop colors t (merged, members)))
       = map population (fst (trackLoop colors t (merged, members)))"
proof (induction colors arbitrary: merged members)
  case Nil
  then show ?case by simp
next
  case (Cons c colors)
  have len: "length members = length merged"
    using Cons.prems by (metis length_map)
  show ?case
  proof (cases "firstWithin merged c t 0")
    case None
    have "map (\<lambda>ms. sum_list (map population ms)) (members @ [ [c] ]) = map population (merged @ [c])"
      using Cons.prems by simp
    from Cons.IH [OF this] show ?thesis using None by simp
  next
    case (Some j)
    then have j: "j < length merged" by (rule firstWithin_bound)
    have at: "sum_list (map population (members ! j)) = population (merged ! j)"
      using Cons.prems j len by (metis nth_map)
    have "map (\<lambda>ms. sum_list (map population ms)) (members[j := members ! j @ [c]])
        = map population (merged[j := absorb (merged ! j) c])"
      using Cons.prems at by (simp add: map_update absorb_population)
    from Cons.IH [OF this] show ?thesis using Some by simp
  qed
qed

lemma mset_concat_update:
  "j < length xss \<Longrightarrow> mset (concat (xss[j := xss ! j @ [x]])) = mset (concat xss) + {#x#}"
proof (induction xss arbitrary: j)
  case Nil
  then show ?case by simp
next
  case (Cons xs xss)
  then show ?case by (cases j) simp_all
qed

lemma trackLoop_members:
  "length members = length merged \<Longrightarrow>
     mset (concat (snd (trackLoop colors t (merged, members))))
       = mset (concat members) + mset colors"
proof (induction colors arbitrary: merged members)
  case Nil
  then show ?case by simp
next
  case (Cons c colors)
  show ?case
  proof (cases "firstWithin merged c t 0")
    case None
    have "length (members @ [ [c] ]) = length (merged @ [c])" using Cons.prems by simp
    from Cons.IH [OF this] show ?thesis using None by simp
  next
    case (Some j)
    then have j: "j < length members" using firstWithin_bound Cons.prems by metis
    have "length (members[j := members ! j @ [c]]) = length (merged[j := absorb (merged ! j) c])"
      using Cons.prems by simp
    from Cons.IH [OF this] show ?thesis
      using Some j by (simp add: mset_concat_update)
  qed
qed

lemma absorbed_sums:
  "map (\<lambda>ms. sum_list (map population ms)) (absorbed colors t)
     = map population (mergeSimilarColors colors t)"
  using trackLoop_sums [of "[]" "[]" colors t]
  by (simp add: absorbed_def mergeSimilarColors_def trackLoop_merged)

lemma absorbed_members: "mset (concat (absorbed colors t)) = mset colors"
  using trackLoop_members [of "[]" "[]" colors t] by (simp add: absorbed_def)

section \<open>Sorting and percentages\<close>

lemma sortByPopulation_mset: "mset (sortByPopulation colors) = mset colors"
  by (simp add: sortByPopulation_def)

lemma sortByPopulation_set: "set (sortByPopulation colors) = set colors"
  by (simp add: sortByPopulation_def)

lemma sortByPopulation_length: "length (sortByPopulation colors) = length colors"
  by (simp add: sortByPopulation_def)

lemma sortByPopulation_sum:
  fixes f :: "RawColor \<Rightarrow> int"
  shows "sum_list (map f (sortByPopulation colors)) = sum_list (map f colors)"
proof -
  have "mset (map f (sortByPopulation colors)) = mset (map f colors)"
    by (simp add: sortByPopulation_mset)
  then show ?thesis by (metis sum_mset_sum_list)
qed

lemma sortByPopulation_ok: "list_all colorOk (sortByPopulation colors) = list_all colorOk colors"
  by (simp add: list_all_iff sortByPopulation_set)

lemma foldl_population:
  "foldl (\<lambda>sum c. sum + population c) a colors = a + sum_list (map population colors)"
  by (induction colors arbitrary: a) simp_all

lemma withPercentages_map:
  "withPercentages colors =
     map (\<lambda>c. c\<lparr>percentage :=
                  Some (if sum_list (map population colors) > 0
                        then real_of_int (population c) / real_of_int (sum_list (map population colors))
                        else 0)\<rparr>) colors"
  by (simp add: withPercentages_def Let_def foldl_population)

lemma withPercentages_length: "length (withPercentages colors) = length colors"
  by (simp add: withPercentages_map)

lemma withPercentages_population:
  "map population (withPercentages colors) = map population colors"
  by (simp add: withPercentages_map)

lemma withPercentages_ok: "list_all colorOk colors \<Longrightarrow> list_all colorOk (withPercentages colors)"
  by (simp add: withPercentages_map list_all_iff colorOk_def)

lemma withPercentages_percentage:
  assumes "c \<in> set (withPercentages colors)" "0 < sum_list (map population colors)"
  shows "percentage c
     = Some (real_of_int (population c) / real_of_int (sum_list (map population colors)))"
  using assms by (auto simp: withPercentages_map)

section \<open>The stages of the pipeline\<close>

lemma bucketsOf_ok: "samplerOk st \<Longrightarrow> list_all colorOk (bucketsOf st)"
  by (auto simp: bucketsOf_def sortByPopulation_set samplerOk_def list_all_iff averaged_ok)

lemma bucketsOf_population:
  "samplerOk st \<Longrightarrow> sum_list (map population (bucketsOf st)) = totalSamples st"
proof -
  assume ok: "samplerOk st"
  have "sum_list (map population (bucketsOf st))
      = sum_list (map population (map averaged (mapValues (colorMap st))))"
    by (simp add: bucketsOf_def sortByPopulation_sum)
  also have "\<dots> = sum_list (map count (mapValues (colorMap st)))"
    by (simp add: comp_def averaged_population)
  finally show ?thesis using ok by (simp add: samplerOk_def)
qed

lemma ranked_ok: "samplerOk st \<Longrightarrow> list_all colorOk (ranked st t)"
  by (simp add: ranked_def sortByPopulation_ok withPercentages_ok clusters_ok bucketsOf_ok)

lemma ranked_length: "length (ranked st t) = length (clusters (bucketsOf st) t)"
  by (simp add: ranked_def sortByPopulation_length withPercentages_length)

lemma ranked_population:
  "samplerOk st \<Longrightarrow> sum_list (map population (ranked st t)) = totalSamples st"
proof -
  assume ok: "samplerOk st"
  have "sum_list (map population (ranked st t))
      = sum_list (map population (withPercentages (clusters (bucketsOf st) t)))"
    by (simp add: ranked_def sortByPopulation_sum)
  also have "\<dots> = sum_list (map population (clusters (bucketsOf st) t))"
    by (simp add: withPercentages_population)
  finally show ?thesis
    using ok by (simp add: clusters_population bucketsOf_population)
qed

lemma ranked_percentage:
  assumes "samplerOk st" "0 < totalSamples st" "c \<in> set (ranked st t)"
  shows "percentage c = Some (real_of_int (population c) / real_of_int (totalSamples st))"
proof -
  have total: "sum_list (map population (clusters (bucketsOf st) t)) = totalSamples st"
    using assms(1) by (simp add: clusters_population bucketsOf_population)
  have "c \<in> set (withPercentages (clusters (bucketsOf st) t))"
    using assms(3) by (simp add: ranked_def sortByPopulation_set)
  from withPercentages_percentage [OF this] show ?thesis
    using assms(2) total by simp
qed

lemma totalSamples_nonneg: "samplerOk st \<Longrightarrow> 0 \<le> totalSamples st"
proof -
  assume ok: "samplerOk st"
  then have "\<forall>x \<in> set (map count (mapValues (colorMap st))). 0 \<le> x"
    by (fastforce simp: samplerOk_def list_all_iff entryOk_def)
  then have "0 \<le> sum_list (map count (mapValues (colorMap st)))"
    by (intro sum_list_nonneg) auto
  then show ?thesis using ok by (simp add: samplerOk_def)
qed

lemma ranked_nonempty:
  assumes "samplerOk st" "totalSamples st \<noteq> 0"
  shows "1 \<le> length (ranked st t)"
proof -
  have "sum_list (map population (bucketsOf st)) \<noteq> 0"
    using assms by (simp add: bucketsOf_population)
  then have "bucketsOf st \<noteq> []" by auto
  then show ?thesis using clusters_nonempty [of "bucketsOf st" t] by (simp add: ranked_length)
qed

lemma toPaletteColor_fields:
  "PaletteColor.population (toPaletteColor c) = population c"
  "PaletteColor.percentage (toPaletteColor c) = (case percentage c of Some p \<Rightarrow> p | None \<Rightarrow> 0)"
  "paletteColor (toPaletteColor c) = rgbToHex (r c) (g c) (b c)"
  "textColor (toPaletteColor c)
     = bestTextColor (real_of_int (r c)) (real_of_int (g c)) (real_of_int (b c))"
  by (simp_all add: toPaletteColor_def Let_def)

lemma paletteFromData_nonzero:
  "totalSamples (sampleLoop data s 0 emptySampler) \<noteq> 0 \<Longrightarrow>
     paletteFromData data p s t
       = map toPaletteColor (limitedColors (sampleLoop data s 0 emptySampler) p t)"
  by (simp add: paletteFromData_def Let_def)

lemma paletteFromData_zero:
  "totalSamples (sampleLoop data s 0 emptySampler) = 0 \<Longrightarrow> paletteFromData data p s t = []"
  by (simp add: paletteFromData_def Let_def)

lemma paletteFromData_length:
  "totalSamples (sampleLoop data s 0 emptySampler) \<noteq> 0 \<Longrightarrow>
     length (paletteFromData data p s t)
       = min (nat (max 1 \<lfloor>p\<rfloor>)) (length (clusters (buckets data s) t))"
  by (simp add: paletteFromData_nonzero limitedColors_def ranked_length buckets_def min.commute)

lemma paletteFromData_empty_iff:
  "paletteFromData data p s t = [] \<longleftrightarrow> totalSamples (sampleLoop data s 0 emptySampler) = 0"
proof (cases "totalSamples (sampleLoop data s 0 emptySampler) = 0")
  case True
  then show ?thesis by (simp add: paletteFromData_zero)
next
  case False
  have "1 \<le> length (ranked (sampleLoop data s 0 emptySampler) t)"
    using False sampleLoop_ok by (intro ranked_nonempty)
  then have "1 \<le> length (paletteFromData data p s t)"
    using False by (simp add: paletteFromData_nonzero limitedColors_def)
  then show ?thesis using False by auto
qed

section \<open>Populations\<close>

lemma population_ge_length:
  "list_all colorOk xs \<Longrightarrow> int (length xs) \<le> sum_list (map population xs)"
  by (induction xs) (auto simp: colorOk_def)

lemma sum_list_divide:
  fixes f :: "'a \<Rightarrow> int"
  shows "sum_list (map (\<lambda>c. real_of_int (f c) / d) xs) = real_of_int (sum_list (map f xs)) / d"
  by (induction xs) (simp_all add: add_divide_distrib)

lemma buckets_ok: "list_all colorOk (buckets data s)"
  by (simp add: buckets_def bucketsOf_ok sampleLoop_ok)

lemma buckets_population:
  "sum_list (map population (buckets data s))
     = int (length (filter (accepted data) (visited (length data) s 0)))"
  by (simp add: buckets_def bucketsOf_population sampleLoop_ok sampleLoop_total)

text \<open>
  Claim C4.  For a buffer of whole pixels: every bucket has a population of at least 1;
  the populations of the buckets add up to the number of sampled pixels whose alpha is
  at least 128; the clusters after the merge step have the same total; and each
  cluster's population is the sum of the populations of the buckets it has absorbed,
  where every bucket is absorbed by exactly one cluster.
\<close>

theorem population_accounting:
  assumes "length data mod 4 = 0"
  shows "list_all (\<lambda>c. 1 \<le> population c) (buckets data s)
     \<and> sum_list (map population (buckets data s))
         = int (length (filter (accepted data) (visited (length data) s 0)))
     \<and> sum_list (map population (clusters (buckets data s) t))
         = sum_list (map population (buckets data s))
     \<and> map (\<lambda>ms. sum_list (map population ms)) (absorbed (buckets data s) t)
         = map population (mergeSimilarColors (buckets data s) t)
     \<and> mset (concat (absorbed (buckets data s) t)) = mset (buckets data s)"
proof -
  have "list_all (\<lambda>c. 1 \<le> population c) (buckets data s)"
    using buckets_ok [of data s] by (simp add: list_all_iff colorOk_def)
  then show ?thesis
    by (simp add: buckets_population clusters_population absorbed_sums absorbed_members)
qed

theorem population_accounting_witness:
  "map population (buckets tenPixels 1) = [4, 3, 2, 1]
     \<and> length (filter (accepted tenPixels) (visited (length tenPixels) 1 0)) = 10
     \<and> sum_list (map population (clusters (buckets tenPixels 1) 30)) = 10
     \<and> map population (mergeSimilarColors (buckets tenPixels 1) 30) = [7, 3]
     \<and> map (\<lambda>ms. sum_list (map population ms)) (absorbed (buckets tenPixels 1) 30) = [7, 3]
     \<and> mset (concat (absorbed (buckets tenPixels 1) 30)) = mset (buckets tenPixels 1)"
proof -
  have wf: "length tenPixels mod 4 = 0" by (simp add: tenPixels_def)
  have b: "map population (buckets tenPixels 1) = [4, 3, 2, 1]" by code_simp
  have m: "map population (mergeSimilarColors (buckets tenPixels 1) 30) = [7, 3]" by code_simp
  show ?thesis
    using population_accounting [OF wf, of 1 30] b m by simp
qed

section \<open>The length of the palette\<close>

lemma accepted_total:
  "(\<exists>i \<in> set (visited (length data) s 0). accepted data i)
     \<longleftrightarrow> totalSamples (sampleLoop data s 0 emptySampler) \<noteq> 0"
  by (simp add: sampleLoop_total_zero_iff)

text \<open>
  For a buffer of whole pixels in which at least one sampled pixel is accepted, the
  palette of the TypeScript function has at least one entry whatever \<open>paletteSize\<close> is,
  and exactly \<open>min (max 1 (floor paletteSize)) (number of clusters)\<close> entries; so it has
  at most \<open>paletteSize\<close> entries when \<open>paletteSize\<close> is at least 1.
\<close>

lemma palette_length:
  assumes "length data mod 4 = 0"
    and "\<exists>i \<in> set (visited (length data) s 0). accepted data i"
  shows "1 \<le> length (paletteFromData data p s t)
     \<and> length (paletteFromData data p s t)
         = min (nat (max 1 \<lfloor>p\<rfloor>)) (length (clusters (buckets data s) t))
     \<and> (1 \<le> p \<longrightarrow> real (length (paletteFromData data p s t)) \<le> p)"
proof -
  have nz: "totalSamples (sampleLoop data s 0 emptySampler) \<noteq> 0"
    using assms(2) accepted_total [of data s] by blast
  have len: "length (paletteFromData data p s t)
         = min (nat (max 1 \<lfloor>p\<rfloor>)) (length (clusters (buckets data s) t))"
    using nz by (rule paletteFromData_length)
  have "paletteFromData data p s t \<noteq> []"
    using nz paletteFromData_empty_iff [of data p s t] by blast
  then have one: "1 \<le> length (paletteFromData data p s t)"
    by (cases "paletteFromData data p s t") simp_all
  have "real (length (paletteFromData data p s t)) \<le> p" if "1 \<le> p"
  proof -
    have "1 \<le> \<lfloor>p\<rfloor>" using that by simp
    then have "length (paletteFromData data p s t) \<le> nat \<lfloor>p\<rfloor>"
      using len by simp
    then have "real (length (paletteFromData data p s t)) \<le> real (nat \<lfloor>p\<rfloor>)"
      by simp
    also have "\<dots> = real_of_int \<lfloor>p\<rfloor>" using \<open>1 \<le> \<lfloor>p\<rfloor>\<close> by simp
    also have "\<dots> \<le> p" by simp
    finally show ?thesis .
  qed
  then show ?thesis using one len by simp
qed

section \<open>The number of clusters and the threshold\<close>

text \<open>
  Claim C3, as amended.  For the buckets of a buffer of whole pixels and thresholds
  \<open>t1 \<le> t2\<close>, the merge step with \<open>t2\<close> yields no more clusters than with \<open>t1\<close> when
  \<open>t1\<close> switches merging off (\<open>t1 \<le> 0\<close>) or \<open>t2\<close> is at least 442, which is beyond the
  distance of any two colours.
\<close>

theorem cluster_count_threshold:
  assumes "length data mod 4 = 0" and "t1 \<le> t2" and "t1 \<le> 0 \<or> 442 \<le> t2"
  shows "length (clusters (buckets data s) t2) \<le> length (clusters (buckets data s) t1)"
proof (cases "t1 \<le> 0")
  case True
  then have "clusters (buckets data s) t1 = buckets data s" by (simp add: clusters_def)
  then show ?thesis by (simp add: clusters_length)
next
  case False
  then have wide: "442 \<le> t2" and pos: "0 < t1" using assms(3) by auto
  show ?thesis
  proof (cases "buckets data s = []")
    case True
    then show ?thesis
      using clusters_length [of "buckets data s" t2] by simp
  next
    case False
    have "length (clusters (buckets data s) t2) \<le> 1"
      using wide mergeSimilarColors_wide [OF buckets_ok wide, of data s]
      by (simp add: clusters_def)
    also have "1 \<le> length (clusters (buckets data s) t1)"
      using False by (rule clusters_nonempty)
    finally show ?thesis .
  qed
qed

theorem cluster_count_threshold_witness:
  "length (clusters (buckets tenPixels 1) 442) \<le> length (clusters (buckets tenPixels 1) 30)
     \<and> length (clusters (buckets tenPixels 1) 30) \<le> length (clusters (buckets tenPixels 1) 0)
     \<and> length (clusters (buckets tenPixels 1) 0) = 4"
proof -
  have wf: "length tenPixels mod 4 = 0" by (simp add: tenPixels_def)
  have n: "length (clusters (buckets tenPixels 1) 0) = 4" by code_simp
  show ?thesis
    using cluster_count_threshold [OF wf, of 30 442 1] cluster_count_threshold [OF wf, of 0 30 1] n
    by simp
qed

theorem cluster_count_threshold_counterexample:
  "length tenPixels mod 4 = 0 \<and> (30::real) \<le> 32
     \<and> buckets tenPixels 1 = [grey, rose, slate, moss]
     \<and> length (clusters (buckets tenPixels 1) 30) = 2
     \<and> length (clusters (buckets tenPixels 1) 32) = 3
     \<and> \<not> length (clusters (buckets tenPixels 1) 32) \<le> length (clusters (buckets tenPixels 1) 30)"
proof -
  have b: "buckets tenPixels 1 = [grey, rose, slate, moss]" by code_simp
  have n30: "length (clusters (buckets tenPixels 1) 30) = 2" by code_simp
  have n32: "length (clusters (buckets tenPixels 1) 32) = 3" by code_simp
  show ?thesis using b n30 n32 by (simp add: tenPixels_def)
qed

section \<open>The percentages of the palette\<close>

lemma sum_list_take_drop:
  fixes f :: "'a \<Rightarrow> int"
  shows "sum_list (map f (take k xs)) + sum_list (map f (drop k xs)) = sum_list (map f xs)"
proof -
  have "sum_list (map f (take k xs @ drop k xs)) = sum_list (map f xs)" by simp
  then show ?thesis by (simp only: map_append sum_list_append)
qed

lemma limited_percentages:
  assumes "samplerOk st" "0 < totalSamples st"
  shows "map PaletteColor.percentage (map toPaletteColor (take k (ranked st t)))
     = map (\<lambda>c. real_of_int (population c) / real_of_int (totalSamples st)) (take k (ranked st t))"
proof -
  have "PaletteColor.percentage (toPaletteColor c)
      = real_of_int (population c) / real_of_int (totalSamples st)"
    if "c \<in> set (take k (ranked st t))" for c
  proof -
    have "c \<in> set (ranked st t)" using that by (rule in_set_takeD)
    from ranked_percentage [OF assms this] show ?thesis
      by (simp add: toPaletteColor_fields)
  qed
  then show ?thesis by simp
qed

text \<open>
  Claim C2, as amended.  The percentages are shares of all accepted samples, computed
  before the palette is cut to its size.  For a buffer of whole pixels and a non-empty
  palette, the percentages returned add up to the returned populations over the number
  of accepted samples: more than 0, at most 1, and exactly 1 precisely when no cluster
  is cut off, that is when the number of clusters is at most
  \<open>max 1 (floor paletteSize)\<close>.  An empty palette carries no percentages.
\<close>

theorem percentages_sum:
  assumes "length data mod 4 = 0"
  shows "(paletteFromData data p s t \<noteq> [] \<longrightarrow>
            sum_list (map PaletteColor.percentage (paletteFromData data p s t))
              = real_of_int (sum_list (map PaletteColor.population (paletteFromData data p s t)))
                  / real_of_int (totalSamples (sampleLoop data s 0 emptySampler))
          \<and> 0 < sum_list (map PaletteColor.percentage (paletteFromData data p s t))
          \<and> sum_list (map PaletteColor.percentage (paletteFromData data p s t)) \<le> 1
          \<and> (sum_list (map PaletteColor.percentage (paletteFromData data p s t)) = 1
               \<longleftrightarrow> length (clusters (buckets data s) t) \<le> nat (max 1 \<lfloor>p\<rfloor>)))
     \<and> (paletteFromData data p s t = [] \<longrightarrow>
            map PaletteColor.percentage (paletteFromData data p s t) = [])"
proof (intro conjI impI)
  assume ne: "paletteFromData data p s t \<noteq> []"
  define st where "st = sampleLoop data s 0 emptySampler"
  define k where "k = nat (max 1 \<lfloor>p\<rfloor>)"
  define xs where "xs = ranked st t"
  define P where "P = sum_list (map population (take k xs))"
  define D where "D = sum_list (map population (drop k xs))"
  define S where "S = sum_list (map PaletteColor.percentage (paletteFromData data p s t))"
  have ok: "samplerOk st" by (simp add: st_def sampleLoop_ok)
  have nz: "totalSamples st \<noteq> 0"
    using ne paletteFromData_empty_iff [of data p s t] by (simp add: st_def)
  then have pos: "0 < totalSamples st" using totalSamples_nonneg [OF ok] by simp
  have pal: "paletteFromData data p s t = map toPaletteColor (take k xs)"
    using nz by (simp add: paletteFromData_nonzero limitedColors_def st_def k_def xs_def)
  have k1: "1 \<le> k" by (simp add: k_def)
  have xs_ok: "list_all colorOk xs" using ok by (simp add: xs_def ranked_ok)
  have xs1: "1 \<le> length xs" using ranked_nonempty [OF ok nz, of t] by (simp add: xs_def)
  have take_ok: "list_all colorOk (take k xs)"
    using xs_ok by (auto simp: list_all_iff dest: in_set_takeD)
  have drop_ok: "list_all colorOk (drop k xs)"
    using xs_ok by (auto simp: list_all_iff dest: in_set_dropD)
  have total: "P + D = totalSamples st"
    using ranked_population [OF ok, of t] by (simp add: P_def D_def xs_def sum_list_take_drop)
  have P1: "1 \<le> P"
  proof -
    have "1 \<le> min (length xs) k" using k1 xs1 by simp
    then have "1 \<le> int (length (take k xs))" by simp
    then show ?thesis using population_ge_length [OF take_ok] unfolding P_def by linarith
  qed
  have D0: "int (length (drop k xs)) \<le> D"
    using population_ge_length [OF drop_ok] by (simp add: D_def)
  have pops: "sum_list (map PaletteColor.population (paletteFromData data p s t)) = P"
    by (simp add: pal P_def comp_def toPaletteColor_fields)
  have S: "S = real_of_int P / real_of_int (totalSamples st)"
    unfolding S_def pal limited_percentages [OF ok pos, of k t, folded xs_def]
    by (simp add: sum_list_divide P_def)
  show "sum_list (map PaletteColor.percentage (paletteFromData data p s t))
      = real_of_int (sum_list (map PaletteColor.population (paletteFromData data p s t)))
          / real_of_int (totalSamples (sampleLoop data s 0 emptySampler))"
    using S by (simp add: S_def pops st_def)
  show "0 < sum_list (map PaletteColor.percentage (paletteFromData data p s t))"
    using S P1 pos by (simp add: S_def)
  have "P \<le> totalSamples st" using total D0 by linarith
  then show "sum_list (map PaletteColor.percentage (paletteFromData data p s t)) \<le> 1"
    using S pos by (simp add: S_def)
  have "S = 1 \<longleftrightarrow> P = totalSamples st"
  proof
    assume "S = 1"
    then have "real_of_int P = real_of_int (totalSamples st)" using S pos by simp
    then show "P = totalSamples st" by (simp only: of_int_eq_iff)
  next
    assume "P = totalSamples st"
    then show "S = 1" using S pos by simp
  qed
  also have "\<dots> \<longleftrightarrow> D = 0" using total by linarith
  also have "\<dots> \<longleftrightarrow> length xs \<le> k"
  proof
    assume "D = 0"
    then have "length (drop k xs) = 0" using D0 by simp
    then show "length xs \<le> k" by simp
  next
    assume "length xs \<le> k"
    then show "D = 0" by (simp add: D_def)
  qed
  finally show "sum_list (map PaletteColor.percentage (paletteFromData data p s t)) = 1
      \<longleftrightarrow> length (clusters (buckets data s) t) \<le> nat (max 1 \<lfloor>p\<rfloor>)"
    by (simp add: S_def xs_def ranked_length st_def buckets_def k_def)
next
  assume "paletteFromData data p s t = []"
  then show "map PaletteColor.percentage (paletteFromData data p s t) = []" by simp
qed

theorem percentages_sum_witness:
  "sum_list (map PaletteColor.percentage (paletteFromData fourPixels 10 1 0)) = 1
     \<and> sum_list (map PaletteColor.percentage (paletteFromData fourPixels 1 1 0)) \<le> 1
     \<and> map PaletteColor.percentage (paletteFromData transparentPixel 10 1 0) = []"
proof -
  have wf: "length fourPixels mod 4 = 0" by (simp add: fourPixels_def)
  have wf': "length transparentPixel mod 4 = 0" by (simp add: transparentPixel_def)
  have "totalSamples (sampleLoop fourPixels 1 0 emptySampler) \<noteq> 0" by code_simp
  then have ne: "paletteFromData fourPixels q 1 0 \<noteq> []" for q
    by (simp add: paletteFromData_empty_iff)
  have n: "length (clusters (buckets fourPixels 1) 0) = 3" by code_simp
  have "totalSamples (sampleLoop transparentPixel 1 0 emptySampler) = 0" by code_simp
  then have e: "paletteFromData transparentPixel 10 1 0 = []"
    by (simp add: paletteFromData_empty_iff)
  have "sum_list (map PaletteColor.percentage (paletteFromData fourPixels 10 1 0)) = 1
      \<longleftrightarrow> length (clusters (buckets fourPixels 1) 0) \<le> nat (max 1 \<lfloor>10::real\<rfloor>)"
    using percentages_sum [OF wf, of 10 1 0] ne by blast
  then have a: "sum_list (map PaletteColor.percentage (paletteFromData fourPixels 10 1 0)) = 1"
    using n by simp
  have b: "sum_list (map PaletteColor.percentage (paletteFromData fourPixels 1 1 0)) \<le> 1"
    using percentages_sum [OF wf, of 1 1 0] ne by blast
  have c: "map PaletteColor.percentage (paletteFromData transparentPixel 10 1 0) = []"
    using percentages_sum [OF wf', of 10 1 0] e by blast
  show ?thesis using a b c by blast
qed

theorem percentages_sum_counterexample:
  "paletteFromData threePixels 1 1 0 \<noteq> []
     \<and> sum_list (map PaletteColor.percentage (paletteFromData threePixels 1 1 0)) = 2 / 3
     \<and> sum_list (map PaletteColor.percentage (paletteFromData threePixels 1 1 0)) \<noteq> 1"
proof -
  have nz: "totalSamples (sampleLoop threePixels 1 0 emptySampler) \<noteq> 0" by code_simp
  have l: "limitedColors (sampleLoop threePixels 1 0 emptySampler) 1 0
      = [\<lparr>r = 255, g = 0, b = 0, population = 2, percentage = Some (2 / 3)\<rparr>]"
    by code_simp
  show ?thesis
    by (simp add: paletteFromData_nonzero [OF nz] l toPaletteColor_fields)
qed

section \<open>Hexadecimal formatting\<close>

lemma hexDigits_small: "n < 16 \<Longrightarrow> hexDigits n = [hexDigit n]"
  by (subst hexDigits.simps) simp

lemma hexDigits_byte:
  "16 \<le> n \<Longrightarrow> n < 256 \<Longrightarrow> hexDigits n = [hexDigit (n div 16), hexDigit (n mod 16)]"
  by (subst hexDigits.simps) (simp add: hexDigits_small)

lemma padded_byte:
  assumes "0 \<le> v" "v \<le> 255"
  shows "(let hex = toString16 v in if length hex = 1 then ''0'' @ hex else hex)
     = [hexDigit (nat v div 16), hexDigit (nat v mod 16)]"
proof (cases "nat v < 16")
  case True
  then have "hexDigit (nat v div 16) = CHR ''0''" by (simp add: hexDigit_def)
  then show ?thesis using True assms by (simp add: toString16_def hexDigits_small)
next
  case False
  then have "16 \<le> nat v" "nat v < 256" using assms by simp_all
  then show ?thesis using assms by (simp add: toString16_def hexDigits_byte)
qed

lemma hexDigit_isHexDigit: "d < 16 \<Longrightarrow> isHexDigit (hexDigit d)"
proof -
  assume "d < 16"
  then have "d < length ''0123456789abcdef''" by simp
  then have "''0123456789abcdef'' ! d \<in> set ''0123456789abcdef''" by (rule nth_mem)
  then show ?thesis by (simp only: hexDigit_def isHexDigit_def)
qed

lemma rgbToHex_bytes:
  assumes "0 \<le> rv" "rv \<le> 255" "0 \<le> gv" "gv \<le> 255" "0 \<le> bv" "bv \<le> 255"
  shows "rgbToHex rv gv bv
     = [CHR ''#'', hexDigit (nat rv div 16), hexDigit (nat rv mod 16),
        hexDigit (nat gv div 16), hexDigit (nat gv mod 16),
        hexDigit (nat bv div 16), hexDigit (nat bv mod 16)]"
  using padded_byte [OF assms(1,2)] padded_byte [OF assms(3,4)] padded_byte [OF assms(5,6)]
  by (simp add: rgbToHex_def)

lemma rgbToHex_shape:
  assumes "0 \<le> rv" "rv \<le> 255" "0 \<le> gv" "gv \<le> 255" "0 \<le> bv" "bv \<le> 255"
  shows "length (rgbToHex rv gv bv) = 7 \<and> hd (rgbToHex rv gv bv) = CHR ''#''
     \<and> list_all isHexDigit (tl (rgbToHex rv gv bv))"
proof -
  have "nat v div 16 < 16" if "v \<le> 255" for v :: int using that by simp
  then show ?thesis
    using assms by (simp add: rgbToHex_bytes hexDigit_isHexDigit)
qed

lemma limitedColors_ok: "samplerOk st \<Longrightarrow> list_all colorOk (limitedColors st p t)"
  using ranked_ok [of st t] by (auto simp: limitedColors_def list_all_iff dest: in_set_takeD)

lemma palette_channels:
  assumes "c \<in> set (paletteFromData data p s t)"
  shows "\<exists>x. colorOk x \<and> paletteColor c = rgbToHex (r x) (g x) (b x)"
proof -
  have nz: "totalSamples (sampleLoop data s 0 emptySampler) \<noteq> 0"
    using assms paletteFromData_zero [of data s p t] by auto
  then obtain x where x: "x \<in> set (limitedColors (sampleLoop data s 0 emptySampler) p t)"
      and c: "c = toPaletteColor x"
    using assms by (auto simp: paletteFromData_nonzero)
  have "colorOk x"
    using limitedColors_ok [OF sampleLoop_ok, of data s p t] x by (simp add: list_all_iff)
  then show ?thesis using c by (auto simp: toPaletteColor_fields)
qed

text \<open>
  Claim C8.  For channels between 0 and 255, \<open>rgbToHex\<close> returns \<open>#\<close> followed by the
  two hexadecimal digits of each channel, high digit first, zero-padded and in lower
  case: seven characters.  \<open>rgbToHex 0 0 0\<close> is \<open>#000000\<close> and \<open>rgbToHex 255 255 255\<close> is
  \<open>#ffffff\<close>.  For a buffer of whole pixels, every \<open>paletteColor\<close> of the palette has
  this shape, because averaging and merging keep the channels between 0 and 255.
\<close>

theorem rgbToHex_format:
  assumes "0 \<le> rv \<and> rv \<le> 255" and "0 \<le> gv \<and> gv \<le> 255" and "0 \<le> bv \<and> bv \<le> 255"
    and "length data mod 4 = 0"
  shows "rgbToHex rv gv bv
       = [CHR ''#'', hexDigit (nat rv div 16), hexDigit (nat rv mod 16),
          hexDigit (nat gv div 16), hexDigit (nat gv mod 16),
          hexDigit (nat bv div 16), hexDigit (nat bv mod 16)]
     \<and> length (rgbToHex rv gv bv) = 7
     \<and> list_all isHexDigit (tl (rgbToHex rv gv bv))
     \<and> rgbToHex 0 0 0 = ''#000000''
     \<and> rgbToHex 255 255 255 = ''#ffffff''
     \<and> list_all (\<lambda>c. length (paletteColor c) = 7 \<and> hd (paletteColor c) = CHR ''#''
                     \<and> list_all isHexDigit (tl (paletteColor c)))
          (paletteFromData data p s t)"
proof -
  have zero: "rgbToHex 0 0 0 = ''#000000''"
    by (simp add: rgbToHex_bytes hexDigit_def)
  have full: "rgbToHex 255 255 255 = ''#ffffff''"
    by (simp add: rgbToHex_bytes hexDigit_def)
  have pal: "length (paletteColor c) = 7 \<and> hd (paletteColor c) = CHR ''#''
      \<and> list_all isHexDigit (tl (paletteColor c))"
    if "c \<in> set (paletteFromData data p s t)" for c
  proof -
    from palette_channels [OF that] obtain x
      where "colorOk x" and "paletteColor c = rgbToHex (r x) (g x) (b x)" by blast
    then show ?thesis
      using rgbToHex_shape [of "r x" "g x" "b x"] by (simp add: colorOk_def)
  qed
  show ?thesis
    using assms(1-3) rgbToHex_bytes [of rv gv bv] rgbToHex_shape [of rv gv bv] zero full pal
    by (simp add: list_all_iff)
qed

theorem rgbToHex_format_witness:
  "rgbToHex 171 5 16 = ''#ab0510''
     \<and> length (rgbToHex 171 5 16) = 7
     \<and> list_all isHexDigit (tl (rgbToHex 171 5 16))
     \<and> map paletteColor (paletteFromData fourPixels 10 1 0) = [''#ff0000'', ''#00ff00'', ''#0000ff'']
     \<and> list_all (\<lambda>c. length (paletteColor c) = 7 \<and> hd (paletteColor c) = CHR ''#''
                     \<and> list_all isHexDigit (tl (paletteColor c)))
          (paletteFromData fourPixels 10 1 0)"
proof -
  have wf: "length fourPixels mod 4 = 0" by (simp add: fourPixels_def)
  have h: "(0::int) \<le> 171 \<and> (171::int) \<le> 255" "(0::int) \<le> 5 \<and> (5::int) \<le> 255"
    "(0::int) \<le> 16 \<and> (16::int) \<le> 255" by simp_all
  have nz: "totalSamples (sampleLoop fourPixels 1 0 emptySampler) \<noteq> 0" by code_simp
  have l: "map (\<lambda>c. rgbToHex (r c) (g c) (b c))
             (limitedColors (sampleLoop fourPixels 1 0 emptySampler) 10 0)
      = [''#ff0000'', ''#00ff00'', ''#0000ff'']"
    by code_simp
  have m: "map paletteColor (paletteFromData fourPixels 10 1 0)
      = [''#ff0000'', ''#00ff00'', ''#0000ff'']"
    using l by (simp add: paletteFromData_nonzero [OF nz] comp_def toPaletteColor_fields)
  have d: "[CHR ''#'', hexDigit (nat 171 div 16), hexDigit (nat 171 mod 16),
          hexDigit (nat 5 div 16), hexDigit (nat 5 mod 16),
          hexDigit (nat 16 div 16), hexDigit (nat 16 mod 16)] = ''#ab0510''"
    by (simp add: hexDigit_def)
  note fmt = rgbToHex_format [OF h wf, of 10 1 0]
  have e1: "rgbToHex 171 5 16 = ''#ab0510''"
    using fmt [THEN conjunct1] d by simp
  have e2: "length (rgbToHex 171 5 16) = 7 \<and> list_all isHexDigit (tl (rgbToHex 171 5 16))"
    using fmt by blast
  have e3: "list_all (\<lambda>c. length (paletteColor c) = 7 \<and> hd (paletteColor c) = CHR ''#''
                     \<and> list_all isHexDigit (tl (paletteColor c)))
          (paletteFromData fourPixels 10 1 0)"
    using fmt by blast
  show ?thesis using e1 e2 e3 m by blast
qed

section \<open>Text colour\<close>

lemma channelToLinear_0: "channelToLinear 0 = 0"
  by (simp add: channelToLinear_def)

lemma channelToLinear_255: "channelToLinear 255 = 1"
  by (simp add: channelToLinear_def Let_def)

lemma luminance_black: "srgbToLuminance 0 0 0 = 0"
  by (simp add: srgbToLuminance_def channelToLinear_0)

lemma luminance_white: "srgbToLuminance 255 255 255 = 1"
  by (simp add: srgbToLuminance_def channelToLinear_255)

lemma powr_12_5:
  assumes "0 < (x::real)"
  shows "(x powr (12 / 5)) ^ 5 = x ^ 12"
proof -
  have "(x powr (12 / 5)) ^ 5 = (x powr (12 / 5)) powr (real 5)"
    using assms by (subst powr_realpow) simp_all
  also have "\<dots> = x powr (real 12)" by (simp add: powr_powr)
  also have "\<dots> = x ^ 12" using assms by (rule powr_realpow)
  finally show ?thesis .
qed

lemma powr_12_5_upper:
  assumes "0 < (x::real)" "0 \<le> u" "x ^ 12 \<le> u ^ 5"
  shows "x powr (12 / 5) \<le> u"
proof -
  have "(x powr (12 / 5)) ^ Suc 4 \<le> u ^ Suc 4"
    using assms(3) powr_12_5 [OF assms(1)] by simp
  then show ?thesis using assms(2) by (rule power_le_imp_le_base)
qed

lemma powr_12_5_lower:
  assumes "0 < (x::real)" "u ^ 5 \<le> x ^ 12"
  shows "u \<le> x powr (12 / 5)"
proof -
  have "u ^ Suc 4 \<le> (x powr (12 / 5)) ^ Suc 4"
    using assms(2) powr_12_5 [OF assms(1)] by simp
  then show ?thesis using powr_ge_zero by (rule power_le_imp_le_base)
qed

lemma channelToLinear_low:
  assumes "c \<le> 10"
  shows "channelToLinear c = c / 255 / (1292 / 100)"
proof -
  have "c / 255 \<le> 3928 / 100000" using assms by simp
  then show ?thesis by (simp add: channelToLinear_def Let_def)
qed

lemma channelToLinear_high:
  assumes "11 \<le> c"
  shows "channelToLinear c = ((c / 255 + 55 / 1000) / (1055 / 1000)) powr (12 / 5)"
proof -
  have "\<not> c / 255 \<le> 3928 / 100000" using assms by simp
  then show ?thesis by (simp add: channelToLinear_def Let_def)
qed

lemma channelToLinear_range:
  assumes "0 \<le> c" "c \<le> 255"
  shows "0 \<le> channelToLinear c \<and> channelToLinear c \<le> 1"
proof (cases "c / 255 \<le> 3928 / 100000")
  case True
  then have "channelToLinear c = c / 255 / (1292 / 100)"
    by (simp add: channelToLinear_def Let_def)
  then show ?thesis using assms True by simp
next
  case False
  have base: "0 \<le> (c / 255 + 55 / 1000) / (1055 / 1000)"
    "(c / 255 + 55 / 1000) / (1055 / 1000) \<le> 1"
    using assms by simp_all
  have "((c / 255 + 55 / 1000) / (1055 / 1000)) powr (24 / 10) \<le> 1"
    using base by (intro powr_le1) simp_all
  then show ?thesis
    using False powr_ge_zero [of "(c / 255 + 55 / 1000) / (1055 / 1000)" "24 / 10"]
    by (simp add: channelToLinear_def Let_def)
qed

lemma channelToLinear_mono_high:
  assumes "11 \<le> c" "c \<le> d"
  shows "channelToLinear c \<le> channelToLinear d"
proof -
  have "11 \<le> d" using assms by simp
  have "(c / 255 + 55 / 1000) / (1055 / 1000) \<le> (d / 255 + 55 / 1000) / (1055 / 1000)"
    using assms(2) by simp
  moreover have "0 \<le> (c / 255 + 55 / 1000) / (1055 / 1000)" using assms(1) by simp
  ultimately have "((c / 255 + 55 / 1000) / (1055 / 1000)) powr (12 / 5)
      \<le> ((d / 255 + 55 / 1000) / (1055 / 1000)) powr (12 / 5)"
    by (intro powr_mono2) simp_all
  then show ?thesis
    by (simp only: channelToLinear_high [OF assms(1)] channelToLinear_high [OF \<open>11 \<le> d\<close>])
qed

lemma channelToLinear_117: "channelToLinear 117 \<le> 179 / 1000"
proof -
  have h: "channelToLinear 117 = ((117 / 255 + 55 / 1000) / (1055 / 1000)) powr (12 / 5)"
    by (rule channelToLinear_high) simp
  have "((117 / 255 + 55 / 1000) / (1055 / 1000)) powr (12 / 5) \<le> (179 / 1000 :: real)"
    by (rule powr_12_5_upper) (simp_all add: power_divide)
  then show ?thesis by (simp only: h)
qed

lemma channelToLinear_118: "180 / 1000 \<le> channelToLinear 118"
proof -
  have h: "channelToLinear 118 = ((118 / 255 + 55 / 1000) / (1055 / 1000)) powr (12 / 5)"
    by (rule channelToLinear_high) simp
  have "(180 / 1000 :: real) \<le> ((118 / 255 + 55 / 1000) / (1055 / 1000)) powr (12 / 5)"
    by (rule powr_12_5_lower) (simp_all add: power_divide)
  then show ?thesis by (simp only: h)
qed

lemma channelToLinear_100:
  "127 / 1000 \<le> channelToLinear 100 \<and> channelToLinear 100 \<le> 128 / 1000"
proof -
  have h: "channelToLinear 100 = ((100 / 255 + 55 / 1000) / (1055 / 1000)) powr (12 / 5)"
    by (rule channelToLinear_high) simp
  have "(127 / 1000 :: real) \<le> ((100 / 255 + 55 / 1000) / (1055 / 1000)) powr (12 / 5)"
    by (rule powr_12_5_lower) (simp_all add: power_divide)
  moreover have "((100 / 255 + 55 / 1000) / (1055 / 1000)) powr (12 / 5) \<le> (128 / 1000 :: real)"
    by (rule powr_12_5_upper) (simp_all add: power_divide)
  ultimately show ?thesis by (simp only: h)
qed

lemma luminance_grey: "srgbToLuminance c c c = channelToLinear c"
  by (simp add: srgbToLuminance_def Let_def algebra_simps)

lemma luminance_range:
  assumes "0 \<le> rv \<and> rv \<le> 255" "0 \<le> gv \<and> gv \<le> 255" "0 \<le> bv \<and> bv \<le> 255"
  shows "0 \<le> srgbToLuminance rv gv bv \<and> srgbToLuminance rv gv bv \<le> 1"
  using channelToLinear_range [of rv] channelToLinear_range [of gv] channelToLinear_range [of bv]
    assms
  by (simp add: srgbToLuminance_def Let_def)

lemma contrast_white: "L \<le> 1 \<Longrightarrow> contrastRatio L 1 = (1 + 5 / 100) / (L + 5 / 100)"
  by (simp add: contrastRatio_def Let_def max_def min_def)

lemma contrast_black: "0 \<le> L \<Longrightarrow> contrastRatio L 0 = (L + 5 / 100) / (0 + 5 / 100)"
  by (simp add: contrastRatio_def Let_def max_def min_def)

lemma white_iff:
  assumes "0 \<le> (L::real)"
  shows "(1 + 5 / 100) / (L + 5 / 100) \<ge> (L + 5 / 100) / (0 + 5 / 100)
     \<longleftrightarrow> (L + 5 / 100)\<^sup>2 \<le> 525 / 10000"
proof -
  define a where "a = L + 5 / 100"
  have pos: "0 < a" using assms by (simp add: a_def)
  have "a / (0 + 5 / 100) \<le> (1 + 5 / 100) / a \<longleftrightarrow> a / (5 / 100) * a \<le> 1 + 5 / 100"
    using pos by (simp add: pos_le_divide_eq)
  also have "a / (5 / 100) * a = 20 * a\<^sup>2"
    by (simp add: power2_eq_square)
  also have "20 * a\<^sup>2 \<le> 1 + 5 / 100 \<longleftrightarrow> a\<^sup>2 \<le> 525 / 10000"
    by (simp add: mult.commute)
  finally show ?thesis by (simp add: a_def)
qed

lemma bestTextColor_rule:
  "bestTextColor rv gv bv
     = (if contrastRatio (srgbToLuminance rv gv bv) 1 \<ge> contrastRatio (srgbToLuminance rv gv bv) 0
        then ''#FFFFFF'' else ''#000000'')"
  by (simp add: bestTextColor_def luminance_black luminance_white Let_def)

lemma bestTextColor_threshold:
  assumes "0 \<le> srgbToLuminance rv gv bv" "srgbToLuminance rv gv bv \<le> 1"
  shows "bestTextColor rv gv bv
     = (if (srgbToLuminance rv gv bv + 5 / 100)\<^sup>2 \<le> 525 / 10000 then ''#FFFFFF'' else ''#000000'')"
  using white_iff [OF assms(1)]
  by (simp only: bestTextColor_rule contrast_white [OF assms(2)] contrast_black [OF assms(1)])

lemma bestTextColor_grey:
  assumes "0 \<le> v" "v \<le> 255"
  shows "bestTextColor (real_of_int v) (real_of_int v) (real_of_int v)
     = (if v \<le> 117 then ''#FFFFFF'' else ''#000000'')"
proof -
  let ?L = "channelToLinear (real_of_int v)"
  have rng: "0 \<le> ?L \<and> ?L \<le> 1"
    using assms by (intro channelToLinear_range) simp_all
  have thr: "bestTextColor (real_of_int v) (real_of_int v) (real_of_int v)
      = (if (?L + 5 / 100)\<^sup>2 \<le> 525 / 10000 then ''#FFFFFF'' else ''#000000'')"
    using bestTextColor_threshold [of "real_of_int v" "real_of_int v" "real_of_int v"] rng
    by (simp add: luminance_grey)
  show ?thesis
  proof (cases "v \<le> 117")
    case True
    have "?L \<le> 179 / 1000"
    proof (cases "v \<le> 10")
      case True
      then have "real_of_int v \<le> 10" by simp
      then have "?L = real_of_int v / 255 / (1292 / 100)" by (rule channelToLinear_low)
      also have "\<dots> \<le> 10 / 255 / (1292 / 100)"
        using \<open>real_of_int v \<le> 10\<close> by (simp add: divide_right_mono)
      finally show ?thesis by simp
    next
      case False
      then have "11 \<le> real_of_int v" by simp
      moreover have "real_of_int v \<le> 117" using True by simp
      ultimately have "?L \<le> channelToLinear 117" by (rule channelToLinear_mono_high)
      then show ?thesis using channelToLinear_117 by simp
    qed
    then have "?L + 5 / 100 \<le> 229 / 1000" by simp
    moreover have "0 \<le> ?L + 5 / 100" using rng by simp
    ultimately have "(?L + 5 / 100)\<^sup>2 \<le> (229 / 1000)\<^sup>2"
      by (intro power_mono) simp_all
    then have "(?L + 5 / 100)\<^sup>2 \<le> 525 / 10000" by (simp add: power2_eq_square)
    then show ?thesis using thr True by simp
  next
    case False
    then have "118 \<le> real_of_int v" by simp
    then have "channelToLinear 118 \<le> ?L"
      by (intro channelToLinear_mono_high) simp_all
    then have "230 / 1000 \<le> ?L + 5 / 100" using channelToLinear_118 by simp
    then have "(230 / 1000)\<^sup>2 \<le> (?L + 5 / 100)\<^sup>2"
      by (intro power_mono) simp_all
    then have "\<not> (?L + 5 / 100)\<^sup>2 \<le> 525 / 10000" by (simp add: power2_eq_square)
    then show ?thesis using thr False by simp
  qed
qed

lemma luminance_primaries:
  "srgbToLuminance 255 0 0 = 2126 / 10000 \<and> srgbToLuminance 0 255 0 = 7152 / 10000
     \<and> srgbToLuminance 0 0 255 = 722 / 10000"
  by (simp add: srgbToLuminance_def Let_def channelToLinear_0 channelToLinear_255)

lemma bestTextColor_primaries:
  "bestTextColor 255 0 0 = ''#000000'' \<and> bestTextColor 0 255 0 = ''#000000''
     \<and> bestTextColor 0 0 255 = ''#FFFFFF''"
  using bestTextColor_threshold [of 255 0 0] bestTextColor_threshold [of 0 255 0]
    bestTextColor_threshold [of 0 0 255]
  by (simp add: luminance_primaries power2_eq_square)

text \<open>
  Claim C9.  Numbers are exact reals here.  \<open>bestTextColor 0 0 0\<close> is \<open>#FFFFFF\<close> and
  \<open>bestTextColor 255 255 255\<close> is \<open>#000000\<close>; the luminance of white is 1 and that of
  black is 0.  For every triple the function returns white exactly when the contrast
  ratio of the background luminance against 1 is at least its contrast ratio against 0,
  black otherwise, where the ratio of two luminances is
  \<open>(lighter + 0.05) / (darker + 0.05)\<close>.  For channels between 0 and 255 the luminance
  \<open>L\<close> lies between 0 and 1, the two ratios are \<open>1.05 / (L + 0.05)\<close> and
  \<open>(L + 0.05) / 0.05\<close>, and white is returned exactly when \<open>(L + 0.05)\<^sup>2 \<le> 0.0525\<close>.
  With the sRGB linearisation this puts the change from white to black text on the grey
  axis between 117 and 118; red and green get black text, blue gets white; the
  luminance of (10, 10, 10) is \<open>10 / 255 / 12.92\<close> and that of (100, 100, 100) lies
  between 0.127 and 0.128.  With all channels at most 10 the luminance is the weighted
  sum of the channels over \<open>255 * 12.92\<close>, with all channels at least 11 the
  weighted sum of \<open>(c / 255 + 0.055) / 1.055\<close> to the power 2.4, the weights being 0.2126,
  0.7152 and 0.0722.
\<close>

theorem bestTextColor_contrast:
  "bestTextColor 0 0 0 = ''#FFFFFF''
     \<and> bestTextColor 255 255 255 = ''#000000''
     \<and> srgbToLuminance 255 255 255 = 1
     \<and> srgbToLuminance 0 0 0 = 0
     \<and> contrastRatio L1 L2 = (max L1 L2 + 5 / 100) / (min L1 L2 + 5 / 100)
     \<and> (bestTextColor rv gv bv = ''#FFFFFF''
          \<longleftrightarrow> contrastRatio (srgbToLuminance rv gv bv) 1 \<ge> contrastRatio (srgbToLuminance rv gv bv) 0)
     \<and> (bestTextColor rv gv bv = ''#000000''
          \<longleftrightarrow> contrastRatio (srgbToLuminance rv gv bv) 1 < contrastRatio (srgbToLuminance rv gv bv) 0)
     \<and> (0 \<le> rv \<and> rv \<le> 255 \<and> 0 \<le> gv \<and> gv \<le> 255 \<and> 0 \<le> bv \<and> bv \<le> 255 \<longrightarrow>
          0 \<le> srgbToLuminance rv gv bv \<and> srgbToLuminance rv gv bv \<le> 1
          \<and> (bestTextColor rv gv bv = ''#FFFFFF''
               \<longleftrightarrow> (1 + 5 / 100) / (srgbToLuminance rv gv bv + 5 / 100)
                     \<ge> (srgbToLuminance rv gv bv + 5 / 100) / (0 + 5 / 100))
          \<and> (bestTextColor rv gv bv = ''#FFFFFF''
               \<longleftrightarrow> (srgbToLuminance rv gv bv + 5 / 100)\<^sup>2 \<le> 525 / 10000))
     \<and> (0 \<le> v \<and> v \<le> 255 \<longrightarrow>
          bestTextColor (real_of_int v) (real_of_int v) (real_of_int v)
            = (if v \<le> 117 then ''#FFFFFF'' else ''#000000''))
     \<and> srgbToLuminance 255 0 0 = 2126 / 10000
     \<and> srgbToLuminance 0 255 0 = 7152 / 10000
     \<and> srgbToLuminance 0 0 255 = 722 / 10000
     \<and> bestTextColor 255 0 0 = ''#000000''
     \<and> bestTextColor 0 255 0 = ''#000000''
     \<and> bestTextColor 0 0 255 = ''#FFFFFF''
     \<and> srgbToLuminance 10 10 10 = 10 / 255 / (1292 / 100)
     \<and> 127 / 1000 \<le> srgbToLuminance 100 100 100
     \<and> srgbToLuminance 100 100 100 \<le> 128 / 1000
     \<and> (rv \<le> 10 \<and> gv \<le> 10 \<and> bv \<le> 10 \<longrightarrow>
          srgbToLuminance rv gv bv
            = 2126 / 10000 * (rv / 255 / (1292 / 100)) + 7152 / 10000 * (gv / 255 / (1292 / 100))
                + 722 / 10000 * (bv / 255 / (1292 / 100)))
     \<and> (11 \<le> rv \<and> 11 \<le> gv \<and> 11 \<le> bv \<longrightarrow>
          srgbToLuminance rv gv bv
            = 2126 / 10000 * ((rv / 255 + 55 / 1000) / (1055 / 1000)) powr (24 / 10)
                + 7152 / 10000 * ((gv / 255 + 55 / 1000) / (1055 / 1000)) powr (24 / 10)
                + 722 / 10000 * ((bv / 255 + 55 / 1000) / (1055 / 1000)) powr (24 / 10))"
proof -
  let ?L = "srgbToLuminance rv gv bv"
  have c12: "srgbToLuminance rv gv bv
      = 2126 / 10000 * (rv / 255 / (1292 / 100)) + 7152 / 10000 * (gv / 255 / (1292 / 100))
          + 722 / 10000 * (bv / 255 / (1292 / 100))"
    if "rv \<le> 10 \<and> gv \<le> 10 \<and> bv \<le> 10"
    using that
    by (simp only: srgbToLuminance_def Let_def channelToLinear_low)
  have c13: "srgbToLuminance rv gv bv
      = 2126 / 10000 * ((rv / 255 + 55 / 1000) / (1055 / 1000)) powr (24 / 10)
          + 7152 / 10000 * ((gv / 255 + 55 / 1000) / (1055 / 1000)) powr (24 / 10)
          + 722 / 10000 * ((bv / 255 + 55 / 1000) / (1055 / 1000)) powr (24 / 10)"
    if "11 \<le> rv \<and> 11 \<le> gv \<and> 11 \<le> bv"
    using that channelToLinear_high [of rv] channelToLinear_high [of gv] channelToLinear_high [of bv]
    by (simp add: srgbToLuminance_def Let_def)
  have rule: "bestTextColor rv gv bv
      = (if contrastRatio ?L 1 \<ge> contrastRatio ?L 0 then ''#FFFFFF'' else ''#000000'')"
    by (rule bestTextColor_rule)
  have c1: "bestTextColor 0 0 0 = ''#FFFFFF''"
    by (simp add: bestTextColor_rule luminance_black contrastRatio_def Let_def)
  have c2: "bestTextColor 255 255 255 = ''#000000''"
    by (simp add: bestTextColor_rule luminance_white contrastRatio_def Let_def)
  have c5: "contrastRatio L1 L2 = (max L1 L2 + 5 / 100) / (min L1 L2 + 5 / 100)"
    by (simp add: contrastRatio_def Let_def)
  have c6: "bestTextColor rv gv bv = ''#FFFFFF'' \<longleftrightarrow> contrastRatio ?L 1 \<ge> contrastRatio ?L 0"
    using rule by simp
  have c7: "bestTextColor rv gv bv = ''#000000'' \<longleftrightarrow> contrastRatio ?L 1 < contrastRatio ?L 0"
    using rule by (simp add: not_le)
  have c8: "0 \<le> ?L \<and> ?L \<le> 1
      \<and> (bestTextColor rv gv bv = ''#FFFFFF''
           \<longleftrightarrow> (1 + 5 / 100) / (?L + 5 / 100) \<ge> (?L + 5 / 100) / (0 + 5 / 100))
      \<and> (bestTextColor rv gv bv = ''#FFFFFF'' \<longleftrightarrow> (?L + 5 / 100)\<^sup>2 \<le> 525 / 10000)"
    if "0 \<le> rv \<and> rv \<le> 255 \<and> 0 \<le> gv \<and> gv \<le> 255 \<and> 0 \<le> bv \<and> bv \<le> 255"
  proof -
    have rng: "0 \<le> ?L \<and> ?L \<le> 1" using that by (intro luminance_range) simp_all
    have thr: "bestTextColor rv gv bv
        = (if (?L + 5 / 100)\<^sup>2 \<le> 525 / 10000 then ''#FFFFFF'' else ''#000000'')"
      using rng by (intro bestTextColor_threshold) simp_all
    have sq: "bestTextColor rv gv bv = ''#FFFFFF'' \<longleftrightarrow> (?L + 5 / 100)\<^sup>2 \<le> 525 / 10000"
      using thr by simp
    have "bestTextColor rv gv bv = ''#FFFFFF''
        \<longleftrightarrow> (1 + 5 / 100) / (?L + 5 / 100) \<ge> (?L + 5 / 100) / (0 + 5 / 100)"
      using sq white_iff [of ?L] rng by blast
    then show ?thesis using rng sq by blast
  qed
  have c9: "bestTextColor (real_of_int v) (real_of_int v) (real_of_int v)
      = (if v \<le> 117 then ''#FFFFFF'' else ''#000000'')" if "0 \<le> v \<and> v \<le> 255"
    using that by (intro bestTextColor_grey) simp_all
  have c10: "srgbToLuminance 10 10 10 = 10 / 255 / (1292 / 100)"
    using channelToLinear_low [of 10] by (simp add: luminance_grey)
  have c11: "127 / 1000 \<le> srgbToLuminance 100 100 100 \<and> srgbToLuminance 100 100 100 \<le> 128 / 1000"
    using channelToLinear_100 by (simp only: luminance_grey)
  show ?thesis
    using c1 c2 luminance_white luminance_black c5 c6 c7 c8 c9 luminance_primaries
      bestTextColor_primaries c10 c11 c12 c13
    by blast
qed

theorem bestTextColor_contrast_witness:
  "bestTextColor 100 100 100 = ''#FFFFFF''
     \<and> bestTextColor 117 117 117 = ''#FFFFFF''
     \<and> bestTextColor 118 118 118 = ''#000000''
     \<and> 0 \<le> srgbToLuminance 200 30 70
     \<and> srgbToLuminance 200 30 70 \<le> 1
     \<and> (bestTextColor 200 30 70 = ''#FFFFFF''
          \<longleftrightarrow> (srgbToLuminance 200 30 70 + 5 / 100)\<^sup>2 \<le> 525 / 10000)"
proof -
  have a: "bestTextColor 100 100 100 = ''#FFFFFF''"
    using bestTextColor_contrast [where v = 100] by simp
  have b: "bestTextColor 117 117 117 = ''#FFFFFF''"
    using bestTextColor_contrast [where v = 117] by simp
  have c: "bestTextColor 118 118 118 = ''#000000''"
    using bestTextColor_contrast [where v = 118] by simp
  have d: "0 \<le> srgbToLuminance 200 30 70 \<and> srgbToLuminance 200 30 70 \<le> 1
      \<and> (bestTextColor 200 30 70 = ''#FFFFFF''
          \<longleftrightarrow> (srgbToLuminance 200 30 70 + 5 / 100)\<^sup>2 \<le> 525 / 10000)"
  proof -
    have h: "(0::real) \<le> 200 \<and> (200::real) \<le> 255 \<and> (0::real) \<le> 30 \<and> (30::real) \<le> 255
        \<and> (0::real) \<le> 70 \<and> (70::real) \<le> 255"
      by simp
    show ?thesis
      using bestTextColor_contrast [where rv = 200 and gv = 30 and bv = 70] h by blast
  qed
  show ?thesis using a b c d by blast
qed

section \<open>Errors\<close>



section \<open>The TypeScript sampling loop\<close>

lemma sampling_advances:
  "4 \<le> stride s
     \<and> sorted_wrt (\<lambda>i j. i + 4 \<le> j) (visited (length data) s 0)
     \<and> length (visited (length data) s 0) \<le> (length data + 3) div 4
     \<and> sampleLoop data s 0 st
         = foldl (\<lambda>st i. sampleBody data i st) st (visited (length data) s 0)"
  using stride_ge_4 [of s] visited_gaps [of "length data" s 0] visited_length [of "length data" s 0]
    sampleLoop_visited [of data s 0 st]
  by simp

section \<open>The JavaScript pipeline against the TypeScript one\<close>

lemma mapSet_twice: "mapSet (mapSet m k v) k v' = mapSet m k v'"
  by (induction m) auto

lemma sampleBodyJs_eq: "sampleBodyJs data i st = sampleBody data i st"
  by (cases "mapGet (colorMap st)
        (push_bit 8 (drop_bit 4 (uint (data ! i))) OR push_bit 4 (drop_bit 4 (uint (data ! (i + 1))))
           OR drop_bit 4 (uint (data ! (i + 2))))")
    (simp_all add: sampleBodyJs_def sampleBody_def Let_def mapSet_twice)

lemma stride_int: "1 \<le> k \<Longrightarrow> int (stride (real_of_int k)) = 4 * k"
  by (simp add: stride_def)

lemma sampleLoopJs_eq:
  assumes "1 \<le> k"
  shows "sampleLoopJs data k (int i) st = Some (sampleLoop data (real_of_int k) i st)"
proof (induction data "real_of_int k" i st rule: sampleLoop.induct)
  case (1 data i st)
  show ?case
  proof (cases "i < length data")
    case True
    have "sampleLoopJs data k (int i) st
        = sampleLoopJs data k (int i + 4 * k) (sampleBodyJs data (nat (int i)) st)"
      using True by (subst sampleLoopJs.simps) simp
    also have "\<dots> = sampleLoopJs data k (int (i + stride (real_of_int k))) (sampleBody data i st)"
      using assms by (simp add: stride_int sampleBodyJs_eq)
    also have "\<dots> = Some (sampleLoop data (real_of_int k) (i + stride (real_of_int k))
                          (sampleBody data i st))"
      using True by (rule "1.hyps")
    also have "\<dots> = Some (sampleLoop data (real_of_int k) i st)"
      using True by (subst (2) sampleLoop.simps) simp
    finally show ?thesis .
  next
    case False
    then show ?thesis
      by (subst sampleLoopJs.simps, subst sampleLoop.simps) simp
  qed
qed

lemma sampleLoopJs_returns:
  assumes "sampleLoopJs data k i st = Some y"
  shows "\<not> (k \<le> 0 \<and> i < int (length data))"
proof (rule sampleLoopJs.raw_induct
    [where P = "\<lambda>d k' i' st' y'. \<not> (k' \<le> 0 \<and> i' < int (length d))", OF _ assms])
  fix loop d k' i' st' y'
  assume IH: "\<And>d k' i' st' y'. loop d k' i' st' = Some y' \<Longrightarrow> \<not> (k' \<le> 0 \<and> i' < int (length d))"
    and body: "(if i' < int (length d)
                then loop d k' (i' + 4 * k') (sampleBodyJs d (nat i') st')
                else Some st') = Some y'"
  show "\<not> (k' \<le> 0 \<and> i' < int (length d))"
  proof
    assume a: "k' \<le> 0 \<and> i' < int (length d)"
    then have "loop d k' (i' + 4 * k') (sampleBodyJs d (nat i') st') = Some y'"
      using body by simp
    then have "\<not> (k' \<le> 0 \<and> i' + 4 * k' < int (length d))" by (rule IH)
    then show False using a by simp
  qed
qed

lemma sampleLoopJs_diverges:
  assumes "k \<le> 0" "i < int (length data)"
  shows "sampleLoopJs data k i st = None"
proof (cases "sampleLoopJs data k i st")
  case None
  then show ?thesis .
next
  case (Some y)
  from sampleLoopJs_returns [OF this] show ?thesis using assms by simp
qed

lemma sliceTo_take: "1 \<le> p \<Longrightarrow> sliceTo xs p = take (nat (max 1 \<lfloor>p\<rfloor>)) xs"
proof -
  assume p: "1 \<le> p"
  then have f: "1 \<le> \<lfloor>p\<rfloor>" by simp
  have "take (nat (min \<lfloor>p\<rfloor> (int (length xs)))) xs = take (nat \<lfloor>p\<rfloor>) xs"
    by (cases "\<lfloor>p\<rfloor> \<le> int (length xs)") (simp_all add: min_def)
  then show ?thesis using p f by (simp add: sliceTo_def Let_def max_def)
qed

lemma toPaletteColorJs_eq: "percentage c \<noteq> None \<Longrightarrow> toPaletteColorJs c = toPaletteColor c"
  by (auto simp: toPaletteColorJs_def toPaletteColor_def Let_def)

lemma ranked_has_percentage: "c \<in> set (ranked st t) \<Longrightarrow> percentage c \<noteq> None"
  by (auto simp: ranked_def sortByPopulation_set withPercentages_map)

lemma paletteFromDataJs_eq:
  assumes "1 \<le> k" "1 \<le> p"
  shows "paletteFromDataJs data p k t = Some (paletteFromData data p (real_of_int k) t)"
proof -
  define st where "st = sampleLoop data (real_of_int k) 0 emptySampler"
  have loop: "sampleLoopJs data k 0 emptySampler = Some st"
    using sampleLoopJs_eq [OF assms(1), of data 0 emptySampler] by (simp add: st_def)
  have "map toPaletteColorJs (take n (ranked st t)) = map toPaletteColor (take n (ranked st t))" for n
    by (auto dest!: in_set_takeD ranked_has_percentage intro: toPaletteColorJs_eq)
  then show ?thesis
    using assms(2)
    by (simp add: paletteFromDataJs_def loop paletteFromData_def Let_def st_def [symmetric]
        sliceTo_take limitedColors_def)
qed

text \<open>
  Claim C10, as amended.  For a palette size of at least 1 and an integer sample step of
  at least 1, or with either argument left to its default, the JavaScript function
  returns, and returns exactly what the TypeScript function returns: the same error or
  the same ordered palette, for every image with buffers of whole pixels, every
  resolution and every threshold.  The defaults of the two files are the same.
\<close>

theorem js_ts_agree:
  assumes "\<forall>p. pa = Some p \<longrightarrow> 1 \<le> p" and "\<forall>k. ka = Some k \<longrightarrow> 1 \<le> k"
    and "\<forall>m data. imageData img m = Some data \<longrightarrow> length data mod 4 = 0"
  shows "getColorPaletteFromImageElementJs img pa ma ka ta
       = Some (getColorPaletteFromImageElement img pa ma (map_option real_of_int ka) ta)
     \<and> jsDefaults = PALETTE_DEFAULTS"
proof -
  define p where "p = (case pa of Some v \<Rightarrow> v | None \<Rightarrow> (10::real))"
  define k where "k = (case ka of Some v \<Rightarrow> v | None \<Rightarrow> (2::int))"
  have p1: "1 \<le> p" using assms(1) by (cases pa) (simp_all add: p_def)
  have k1: "1 \<le> k" using assms(2) by (cases ka) (simp_all add: k_def)
  define m where "m = (case ma of Some v \<Rightarrow> v | None \<Rightarrow> (1024::real))"
  define t where "t = (case ta of Some v \<Rightarrow> v | None \<Rightarrow> (50::real))"
  have kr: "(case map_option real_of_int ka of Some v \<Rightarrow> v | None \<Rightarrow> 2) = real_of_int k"
    by (cases ka) (simp_all add: k_def)
  have js: "getColorPaletteFromImageElementJs img pa ma ka ta
      = (if \<not> isImageElement img then Some (Inl NotAnImageElement)
         else if \<not> loads img then Some (Inl ImageFailedToLoad)
         else if \<not> hasContext img then Some (Inl NoCanvasContext)
         else case imageData img m of
                None \<Rightarrow> Some (Inl ImageDataUnreadable)
              | Some data \<Rightarrow> map_option Inr (paletteFromDataJs data p k t))"
    unfolding getColorPaletteFromImageElementJs_def Let_def p_def k_def m_def t_def by simp
  have ts: "getColorPaletteFromImageElement img pa ma (map_option real_of_int ka) ta
      = (if \<not> isImageElement img then Inl NotAnImageElement
         else if \<not> loads img then Inl ImageFailedToLoad
         else if \<not> hasContext img then Inl NoCanvasContext
         else case imageData img m of
                None \<Rightarrow> Inl ImageDataUnreadable
              | Some data \<Rightarrow> Inr (paletteFromData data p (real_of_int k) t))"
    unfolding getColorPaletteFromImageElement_def Let_def kr [symmetric] p_def m_def t_def
    by (simp add: PALETTE_DEFAULTS_def cong: option.case_cong)
  have "getColorPaletteFromImageElementJs img pa ma ka ta
       = Some (getColorPaletteFromImageElement img pa ma (map_option real_of_int ka) ta)"
    unfolding js ts by (simp add: paletteFromDataJs_eq [OF k1 p1] split: option.split)
  then show ?thesis by (simp add: jsDefaults_def PALETTE_DEFAULTS_def)
qed

theorem js_ts_agree_witness:
  "getColorPaletteFromImageElementJs
       \<lparr>isImageElement = True, loads = True, hasContext = True,
        imageData = (\<lambda>m. Some fourPixels)\<rparr> (Some 2) None (Some 1) (Some 0)
     = Some (getColorPaletteFromImageElement
       \<lparr>isImageElement = True, loads = True, hasContext = True,
        imageData = (\<lambda>m. Some fourPixels)\<rparr> (Some 2) None (Some 1) (Some 0))
   \<and> getColorPaletteFromImageElementJs
       \<lparr>isImageElement = False, loads = True, hasContext = True,
        imageData = (\<lambda>m. None)\<rparr> None None None None
     = Some (Inl NotAnImageElement)
   \<and> jsDefaults = PALETTE_DEFAULTS"
proof -
  have a: "\<forall>p. Some (2::real) = Some p \<longrightarrow> 1 \<le> p" by simp
  have b: "\<forall>k. Some (1::int) = Some k \<longrightarrow> 1 \<le> k" by simp
  have c: "\<forall>p. (None::real option) = Some p \<longrightarrow> 1 \<le> p" by simp
  have d: "\<forall>k. (None::int option) = Some k \<longrightarrow> 1 \<le> k" by simp
  have e: "\<forall>m data. imageData \<lparr>isImageElement = True, loads = True, hasContext = True,
        imageData = (\<lambda>m. Some fourPixels)\<rparr> m = Some data \<longrightarrow> length data mod 4 = 0"
    by (simp add: fourPixels_def)
  have f: "\<forall>m data. imageData \<lparr>isImageElement = False, loads = True, hasContext = True,
        imageData = (\<lambda>m. None)\<rparr> m = Some data \<longrightarrow> length data mod 4 = 0"
    by simp
  show ?thesis
    using js_ts_agree [OF a b e, of None "Some 0"] js_ts_agree [OF c d f, of None None]
    by (simp add: getColorPaletteFromImageElement_def)
qed

theorem js_ts_agree_counterexample:
  "getColorPaletteFromImageElementJs
       \<lparr>isImageElement = True, loads = True, hasContext = True,
        imageData = (\<lambda>m. Some onePixel)\<rparr> (Some 0) (Some 1024) (Some 1) (Some 50)
     = Some (Inr [])
   \<and> (\<exists>c. getColorPaletteFromImageElement
       \<lparr>isImageElement = True, loads = True, hasContext = True,
        imageData = (\<lambda>m. Some onePixel)\<rparr> (Some 0) (Some 1024) (Some 1) (Some 50)
     = Inr [c])
   \<and> getColorPaletteFromImageElementJs
       \<lparr>isImageElement = True, loads = True, hasContext = True,
        imageData = (\<lambda>m. Some onePixel)\<rparr> (Some 0) (Some 1024) (Some 1) (Some 50)
     \<noteq> Some (getColorPaletteFromImageElement
       \<lparr>isImageElement = True, loads = True, hasContext = True,
        imageData = (\<lambda>m. Some onePixel)\<rparr> (Some 0) (Some 1024) (Some 1) (Some 50))"
proof -
  have nz: "totalSamples (sampleLoop onePixel 1 0 emptySampler) \<noteq> 0" by code_simp
  have loop: "sampleLoopJs onePixel 1 0 emptySampler = Some (sampleLoop onePixel 1 0 emptySampler)"
    using sampleLoopJs_eq [of 1 onePixel 0 emptySampler] by simp
  have js: "paletteFromDataJs onePixel 0 1 50 = Some []"
    by (simp add: paletteFromDataJs_def loop sliceTo_def)
  have "length (clusters (buckets onePixel 1) 50) = 1" by code_simp
  then have "length (paletteFromData onePixel 0 1 50) = 1"
    using paletteFromData_length [OF nz, of 0 50] by simp
  then obtain c where ts: "paletteFromData onePixel 0 1 50 = [c]"
    by (cases "paletteFromData onePixel 0 1 50") auto
  show ?thesis
    using js ts
    by (simp add: getColorPaletteFromImageElementJs_def getColorPaletteFromImageElement_def)
qed

section \<open>The JavaScript sampling loop with a step of zero\<close>

text \<open>
  Claim C6.  The TypeScript loop steps by \<open>4 * max 1 (floor sampleStep)\<close> and ends for
  every step (\<open>sampling_advances\<close>).  The JavaScript loop steps by \<open>4 * sampleStep\<close> with
  no clamp: with a step of 0 on a buffer that is not empty the index stays at 0, the
  loop never ends and the function never returns, where the TypeScript function returns
  a palette.
\<close>

theorem js_zero_step_never_returns:
  "getColorPaletteFromImageElementJs
       \<lparr>isImageElement = True, loads = True, hasContext = True,
        imageData = (\<lambda>m. Some onePixel)\<rparr> None None (Some 0) None
     = None
   \<and> (\<exists>c. getColorPaletteFromImageElement
       \<lparr>isImageElement = True, loads = True, hasContext = True,
        imageData = (\<lambda>m. Some onePixel)\<rparr> None None (Some 0) None
     = Inr [c])"
proof -
  have "sampleLoopJs onePixel 0 0 emptySampler = None"
    by (rule sampleLoopJs_diverges) (simp_all add: onePixel_def)
  then have js: "paletteFromDataJs onePixel 10 0 50 = None"
    by (simp add: paletteFromDataJs_def)
  have nz: "totalSamples (sampleLoop onePixel 0 0 emptySampler) \<noteq> 0" by code_simp
  have "length (clusters (buckets onePixel 0) 50) = 1" by code_simp
  then have "length (paletteFromData onePixel 10 0 50) = 1"
    using paletteFromData_length [OF nz, of 10 50] by simp
  then obtain c where ts: "paletteFromData onePixel 10 0 50 = [c]"
    by (cases "paletteFromData onePixel 10 0 50") auto
  show ?thesis
    using js ts
    by (simp add: getColorPaletteFromImageElementJs_def getColorPaletteFromImageElement_def
        PALETTE_DEFAULTS_def)
qed

section \<open>The palette size\<close>

lemma limitedColorsN_Num: "limitedColorsN st (Num p) t = limitedColors st p t"
proof -
  have one: "(1::real) \<le> max 1 (real_of_int \<lfloor>p\<rfloor>)" by simp
  have fl: "\<lfloor>max 1 (real_of_int \<lfloor>p\<rfloor>)\<rfloor> = max 1 \<lfloor>p\<rfloor>"
    by (simp add: max_def)
  show ?thesis
    by (simp add: limitedColorsN_def Math_floor_def Math_max_def sliceToN_def
        sliceTo_take [OF one] fl limitedColors_def)
qed

lemma limitedColorsN_NaN: "limitedColorsN st NaN t = []"
  by (simp add: limitedColorsN_def Math_floor_def Math_max_def sliceToN_def sliceTo_def)

lemma paletteFromDataN_Num: "paletteFromDataN data (Num p) s t = paletteFromData data p s t"
  by (simp add: paletteFromDataN_def paletteFromData_def Let_def limitedColorsN_Num)

lemma paletteFromDataN_NaN: "paletteFromDataN data NaN s t = []"
  by (simp add: paletteFromDataN_def limitedColorsN_NaN Let_def)

lemma palette_length_integer:
  assumes "length data mod 4 = 0"
    and "\<exists>i \<in> set (visited (length data) s 0). accepted data i"
  shows "1 \<le> length (paletteFromDataN data (Num (real_of_int n)) s t)
     \<and> (0 < n \<longrightarrow> int (length (paletteFromDataN data (Num (real_of_int n)) s t)) \<le> n)"
proof -
  have nz: "totalSamples (sampleLoop data s 0 emptySampler) \<noteq> 0"
    using assms(2) accepted_total [of data s] by blast
  have len: "length (paletteFromData data (real_of_int n) s t)
      = min (nat (max 1 n)) (length (clusters (buckets data s) t))"
    using paletteFromData_length [OF nz, of "real_of_int n" t] by simp
  have "paletteFromData data (real_of_int n) s t \<noteq> []"
    using nz paletteFromData_empty_iff [of data "real_of_int n" s t] by blast
  then have one: "1 \<le> length (paletteFromData data (real_of_int n) s t)"
    by (cases "paletteFromData data (real_of_int n) s t") simp_all
  have "int (length (paletteFromData data (real_of_int n) s t)) \<le> n" if "0 < n"
    using that len by simp
  then show ?thesis using one by (simp add: paletteFromDataN_Num)
qed

text \<open>
  Claim C5.  The TypeScript function floors \<open>paletteSize\<close> and clamps it to at least 1
  before it cuts the palette, so that for an integer \<open>paletteSize\<close> and a buffer with an
  accepted pixel the palette has at least one entry, and at most \<open>paletteSize\<close> entries
  for a positive one (\<open>palette_length_integer\<close>).  The JavaScript function cuts with
  \<open>colors.slice(0, paletteSize)\<close> and no clamp: with a \<open>paletteSize\<close> of 0 on a buffer of
  one opaque pixel, which is accepted, it returns the empty palette, where the
  TypeScript function returns one entry.  The clamp of the TypeScript function itself
  lets \<open>NaN\<close> through: with a \<open>paletteSize\<close> of \<open>NaN\<close> it returns the empty palette too.
\<close>

theorem js_zero_palette_size_returns_empty:
  "accepted onePixel 0
     \<and> 0 \<in> set (visited (length onePixel) 1 0)
     \<and> getColorPaletteFromImageElementJs
         \<lparr>isImageElement = True, loads = True, hasContext = True,
          imageData = (\<lambda>m. Some onePixel)\<rparr> (Some 0) None (Some 1) None
       = Some (Inr [])
     \<and> (\<exists>c. getColorPaletteFromImageElement
         \<lparr>isImageElement = True, loads = True, hasContext = True,
          imageData = (\<lambda>m. Some onePixel)\<rparr> (Some 0) None (Some 1) None
       = Inr [c])
     \<and> totalSamples (sampleLoop onePixel 1 0 emptySampler) = 1
     \<and> paletteFromDataN onePixel NaN 1 50 = []"
proof -
  have a: "accepted onePixel 0" by code_simp
  have v: "0 \<in> set (visited (length onePixel) 1 0)" by code_simp
  have n: "totalSamples (sampleLoop onePixel 1 0 emptySampler) = 1" by code_simp
  then have nz: "totalSamples (sampleLoop onePixel 1 0 emptySampler) \<noteq> 0" by simp
  have loop: "sampleLoopJs onePixel 1 0 emptySampler = Some (sampleLoop onePixel 1 0 emptySampler)"
    using sampleLoopJs_eq [of 1 onePixel 0 emptySampler] by simp
  have js: "paletteFromDataJs onePixel 0 1 50 = Some []"
    by (simp add: paletteFromDataJs_def loop sliceTo_def)
  have "length (clusters (buckets onePixel 1) 50) = 1" by code_simp
  then have "length (paletteFromData onePixel 0 1 50) = 1"
    using paletteFromData_length [OF nz, of 0 50] by simp
  then obtain c where ts: "paletteFromData onePixel 0 1 50 = [c]"
    by (cases "paletteFromData onePixel 0 1 50") auto
  have jsr: "getColorPaletteFromImageElementJs
         \<lparr>isImageElement = True, loads = True, hasContext = True,
          imageData = (\<lambda>m. Some onePixel)\<rparr> (Some 0) None (Some 1) None
       = Some (Inr [])"
    using js by (simp add: getColorPaletteFromImageElementJs_def)
  have tsr: "\<exists>c. getColorPaletteFromImageElement
         \<lparr>isImageElement = True, loads = True, hasContext = True,
          imageData = (\<lambda>m. Some onePixel)\<rparr> (Some 0) None (Some 1) None
       = Inr [c]"
    using ts by (simp add: getColorPaletteFromImageElement_def PALETTE_DEFAULTS_def)
  show ?thesis
    using a v jsr tsr n paletteFromDataN_NaN [of onePixel 1 50] by blast
qed

end
